theory Spec2Isabelle
  imports Complex_Main "HOL-Library.Word"
begin

chapter \<open>Speech-to-text orchestration core: an embedding of the clinic STT application\<close>

text \<open>
  The development embeds the speech services of the application (\<^verbatim>\<open>AssemblyAINanoService.ts\<close>,
  \<^verbatim>\<open>WhisperService.ts\<close>, \<^verbatim>\<open>GoogleSpeechService.ts\<close>, \<^verbatim>\<open>RealtimeService.ts\<close>,
  \<^verbatim>\<open>AssemblyAIService.ts\<close>, \<^verbatim>\<open>WebSpeechService.ts\<close>): the WAV encoder, the volume computation and the adapters, and the
  recognition orchestrator of \<^verbatim>\<open>SpeechRecognitionService.ts\<close>.

  Conventions. A JavaScript \<^verbatim>\<open>number\<close> that holds an audio sample or a volume is a \<^typ>\<open>real\<close>
  that a double can hold: the result of an operation that rounds is rounded explicitly (\<open>fl\<close>);
  the products of the WAV encoder (a finite \<^verbatim>\<open>Float32Array\<close> element times \<open>0x8000\<close> or
  \<open>0x7FFF\<close>) are exact in double precision and are not; a number that holds a count, a sample rate or a timestamp is an \<^typ>\<open>int\<close> or a
  \<^typ>\<open>nat\<close>. An \<^verbatim>\<open>ArrayBuffer\<close> is a list of bytes. An \<^verbatim>\<open>async\<close> function is split at its
  \<^verbatim>\<open>await\<close>s: the part that runs synchronously when the function is called, and one resume
  function per awaited promise, which takes the promise's outcome. External effects (network
  requests, callbacks to the caller, diagnostics) are appended to a log held in the state.
\<close>

section \<open>WAV encoder (\<^verbatim>\<open>float32ToWav\<close>, identical in the Nano and Whisper services)\<close>

type_synonym byte = "8 word"

text \<open>\<^verbatim>\<open>DataView\<close> setters convert their argument with ToInt8/16/32: the number is truncated
  towards zero and taken modulo the width. Every write of the encoder lies inside the buffer (a
  write outside would raise \<^verbatim>\<open>RangeError\<close>), so writes are list updates.\<close>

definition js_trunc :: "real \<Rightarrow> int" where
  "js_trunc x = (if x < 0 then - \<lfloor>- x\<rfloor> else \<lfloor>x\<rfloor>)"

definition setUint8 :: "byte list \<Rightarrow> nat \<Rightarrow> int \<Rightarrow> byte list" where
  "setUint8 view off v = view[off := word_of_int v]"

text \<open>Little-endian (\<^verbatim>\<open>littleEndian = true\<close>): the low byte first.\<close>

definition setUint16 :: "byte list \<Rightarrow> nat \<Rightarrow> int \<Rightarrow> byte list" where
  "setUint16 view off v = view[off := word_of_int v, off + 1 := word_of_int (v div 256)]"

definition setUint32 :: "byte list \<Rightarrow> nat \<Rightarrow> int \<Rightarrow> byte list" where
  "setUint32 view off v =
     view[off := word_of_int v, off + 1 := word_of_int (v div 256),
          off + 2 := word_of_int (v div 65536), off + 3 := word_of_int (v div 16777216)]"

definition setInt16 :: "byte list \<Rightarrow> nat \<Rightarrow> real \<Rightarrow> byte list" where
  "setInt16 view off x = setUint16 view off (js_trunc x)"

fun writeString :: "byte list \<Rightarrow> nat \<Rightarrow> string \<Rightarrow> byte list" where
  "writeString view offset [] = view"
| "writeString view offset (c # cs) =
     writeString (setUint8 view offset (of_char c)) (offset + 1) cs"

text \<open>The header writes of \<^verbatim>\<open>float32ToWav\<close>, in the order of the source; \<open>n\<close> is
  \<^verbatim>\<open>samples.length\<close>.\<close>

definition writeHeader :: "byte list \<Rightarrow> nat \<Rightarrow> int \<Rightarrow> byte list" where
  "writeHeader view0 n sampleRate =
     (let view = writeString view0 0 ''RIFF'';
          view = setUint32 view 4 (36 + int n * 2);
          view = writeString view 8 ''WAVE'';
          view = writeString view 12 ''fmt '';
          view = setUint32 view 16 16;
          view = setUint16 view 20 1;
          view = setUint16 view 22 1;
          view = setUint32 view 24 sampleRate;
          view = setUint32 view 28 (sampleRate * 2);
          view = setUint16 view 32 2;
          view = setUint16 view 34 16;
          view = writeString view 36 ''data'';
          view = setUint32 view 40 (int n * 2)
      in view)"

text \<open>The sample loop \<^verbatim>\<open>for (let i = 0; i < samples.length; i++)\<close>: the list holds
  \<^verbatim>\<open>samples[i..]\<close>.\<close>

fun writeSamples :: "real list \<Rightarrow> nat \<Rightarrow> byte list \<Rightarrow> byte list" where
  "writeSamples [] i view = view"
| "writeSamples (x # xs) i view =
     (let sample = max (- 1) (min 1 x)
      in writeSamples xs (i + 1)
           (setInt16 view (44 + i * 2) (if sample < 0 then sample * 32768 else sample * 32767)))"

definition float32ToWav :: "real list \<Rightarrow> int \<Rightarrow> byte list" where
  "float32ToWav samples sampleRate =
     writeSamples samples 0
       (writeHeader (replicate (44 + length samples * 2) 0) (length samples) sampleRate)"

text \<open>Readers of a byte buffer, used to state what the encoder wrote.\<close>

definition getUint16 :: "byte list \<Rightarrow> nat \<Rightarrow> int" where
  "getUint16 view off = uint (view ! off) + 256 * uint (view ! (off + 1))"

definition getUint32 :: "byte list \<Rightarrow> nat \<Rightarrow> int" where
  "getUint32 view off =
     uint (view ! off) + 256 * uint (view ! (off + 1))
     + 65536 * uint (view ! (off + 2)) + 16777216 * uint (view ! (off + 3))"

definition getInt16 :: "byte list \<Rightarrow> nat \<Rightarrow> int" where
  "getInt16 view off = (let u = getUint16 view off in if u \<ge> 32768 then u - 65536 else u)"

definition readString :: "byte list \<Rightarrow> nat \<Rightarrow> nat \<Rightarrow> string" where
  "readString view off n = map (\<lambda>b. char_of (uint b)) (take n (drop off view))"

text \<open>The encoder in the words of the specification: a canonical 44-byte header followed by
  the samples, each clamped to \<open>[-1, 1]\<close>, scaled by 32768 when negative and by 32767
  otherwise, and stored as a signed 16-bit little-endian integer.\<close>

definition le16 :: "int \<Rightarrow> byte list" where
  "le16 v = [word_of_int v, word_of_int (v div 256)]"

definition le32 :: "int \<Rightarrow> byte list" where
  "le32 v = [word_of_int v, word_of_int (v div 256), word_of_int (v div 65536),
             word_of_int (v div 16777216)]"

definition ascii :: "string \<Rightarrow> byte list" where
  "ascii s = map (\<lambda>c. word_of_int (of_char c)) s"

definition wav_header :: "nat \<Rightarrow> int \<Rightarrow> byte list" where
  "wav_header n r =
     ascii ''RIFF'' @ le32 (36 + int n * 2) @ ascii ''WAVE'' @ ascii ''fmt '' @ le32 16 @ le16 1
     @ le16 1 @ le32 r @ le32 (r * 2) @ le16 2 @ le16 16 @ ascii ''data'' @ le32 (int n * 2)"

definition pcm16 :: "real \<Rightarrow> int" where
  "pcm16 x = (let c = max (- 1) (min 1 x) in js_trunc (if c < 0 then c * 32768 else c * 32767))"

definition spec_wav :: "real list \<Rightarrow> int \<Rightarrow> byte list" where
  "spec_wav samples r = wav_header (length samples) r @ concat (map (\<lambda>x. le16 (pcm16 x)) samples)"

section \<open>What the adapters share: effects, responses, the volume, the capture state\<close>

text \<open>External effects, in the order they happen. \<open>Fetch url body language\<close> is the multipart
  POST of a finalised utterance; \<open>TranscriptUpdate\<close> is a call of the caller's
  \<^verbatim>\<open>onTranscriptUpdate\<close>; \<open>ConsoleError\<close> is a \<^verbatim>\<open>console.error\<close> diagnostic;
  \<open>RecognitionStart\<close> and \<open>RecognitionStop\<close> are the calls of \<^verbatim>\<open>recognition.start()\<close> and
  \<^verbatim>\<open>recognition.stop()\<close> of the Web Speech API.\<close>

datatype body = Wav "byte list" | Blob "nat list"

datatype effect =
    GetUserMedia
  | StopTracks
  | CreateAudioContext
  | CloseAudioContext
  | TranscriptionStart
  | Fetch string body "string option"
  | TranscriptUpdate string
  | ConsoleError
  | FetchToken
  | Connect
  | CloseTranscriber
  | SendAudio "int list"
  | RecorderStart
  | RecorderStop
  | RecognitionStart
  | RecognitionStop

text \<open>How an awaited transcription request ends: \<open>Threw\<close> when \<^verbatim>\<open>fetch\<close> or
  \<^verbatim>\<open>response.json()\<close> rejects, \<open>NotOk\<close> when \<^verbatim>\<open>response.ok\<close> is false, \<open>Body t\<close> when the
  body parses and \<^verbatim>\<open>data.text\<close> is \<open>t\<close> (the empty string when the field is missing or empty:
  both are falsy).\<close>

datatype response = Threw | NotOk | Body string

text \<open>What a call of an \<^verbatim>\<open>async\<close> function has done when control returns to the event
  loop: its promise is resolved, rejected, or the function is suspended at an \<^verbatim>\<open>await\<close>.\<close>

datatype status = Resolved | Rejected | Pending

text \<open>\<^verbatim>\<open>String.prototype.trim\<close>. A \<^typ>\<open>string\<close> holds the code units of a JavaScript string
  that lie below \<open>0x100\<close>; the white space and line terminators in that range are the six ASCII
  characters and the no-break space \<open>U+00A0\<close>.\<close>

definition is_space :: "char \<Rightarrow> bool" where
  "is_space c =
     (c \<in> set [CHR '' '', CHR 0x09, CHR 0x0A, CHR 0x0B, CHR 0x0C, CHR 0x0D, CHR 0xA0])"

definition trim :: "string \<Rightarrow> string" where
  "trim s = rev (dropWhile is_space (rev (dropWhile is_space s)))"

text \<open>
  Arithmetic on a JavaScript \<^verbatim>\<open>number\<close> is that of IEEE 754 binary64: the exact result is
  rounded to the nearest double, ties to the one with an even significand. \<open>rne\<close> rounds a real
  to the nearest integer, ties to even; \<open>fl\<close> rounds a real to the nearest double: a double is
  an integer multiple of \<open>2 powr (e - 52)\<close>, where \<open>e\<close> is the binary exponent of the number and
  at least \<open>-1022\<close> (below \<open>2 powr (-1022)\<close> the doubles are the subnormal ones). Overflow to
  \<^verbatim>\<open>Infinity\<close> is not represented: the numbers rounded here are sums of at most 16384 squares
  or magnitudes of \<^verbatim>\<open>Float32Array\<close> elements, all below \<open>2 powr 271\<close>.
\<close>

definition rne :: "real \<Rightarrow> int" where
  "rne t = (let f = \<lfloor>t\<rfloor>; d = t - of_int f
            in if d < 1 / 2 then f else if d > 1 / 2 then f + 1 else if even f then f else f + 1)"

definition fl :: "real \<Rightarrow> real" where
  "fl x = (if x = 0 then 0
           else (let e = max \<lfloor>log 2 \<bar>x\<bar>\<rfloor> (- 1022); q = 2 powr (of_int e - 52)
                 in q * of_int (rne (x / q))))"

text \<open>The values a double and an element of a \<^verbatim>\<open>Float32Array\<close> can hold (finite ones): a
  significand of 53 or 24 bits and an exponent in the range of the format.\<close>

definition is_double :: "real \<Rightarrow> bool" where
  "is_double x = (\<exists>m e. x = of_int m * 2 powr of_int e \<and> \<bar>m\<bar> < 2 ^ 53 \<and> - 1074 \<le> e)"

definition float32 :: "real \<Rightarrow> bool" where
  "float32 x = (\<exists>m e. x = of_int m * 2 powr of_int e \<and> \<bar>m\<bar> < 2 ^ 24 \<and> - 149 \<le> e \<and> e \<le> 104)"

text \<open>The unit roundoff of binary64.\<close>

definition unit_roundoff :: real where
  "unit_roundoff = 1 / 2 ^ 53"

text \<open>\<^verbatim>\<open>calculateVolume\<close> (the same text in the Nano, Whisper and Google services). The loop
  adds the squares from the left, and the product, each sum, the quotient and the square root
  are rounded (\<^verbatim>\<open>Math.sqrt\<close> is the correctly rounded square root of IEEE 754 in the
  JavaScript engines). On an empty buffer the quotient is \<^verbatim>\<open>0 / 0 = NaN\<close>, which is \<open>None\<close>
  here. A comparison with \<^verbatim>\<open>NaN\<close> is false.\<close>

definition calculateVolume :: "real list \<Rightarrow> real option" where
  "calculateVolume buffer =
     (if buffer = [] then None
      else Some (fl (sqrt (fl (foldl (\<lambda>sum x. fl (sum + fl (x * x))) 0 buffer
                                / real (length buffer))))))"

definition exceeds :: "real option \<Rightarrow> real \<Rightarrow> bool" where
  "exceeds volume threshold = (case volume of None \<Rightarrow> False | Some v \<Rightarrow> v > threshold)"

text \<open>The root mean square of a frame, in the words of the specification: over the reals.\<close>

definition rms :: "real list \<Rightarrow> real" where
  "rms frame = sqrt ((\<Sum>x\<leftarrow>frame. x\<^sup>2) / real (length frame))"

text \<open>The capture state every adapter holds. \<open>sampleRate\<close> and \<open>bufferSize\<close> are the options
  of that name (defaults 16000 and 4096). A reference is \<open>True\<close> when it is not
  \<^verbatim>\<open>null\<close>. The Realtime and AssemblyAI services call \<open>input\<close> \<^verbatim>\<open>source\<close> and
  \<open>isCurrentlyListening\<close> \<^verbatim>\<open>listening\<close>. \<open>pendingMedia\<close> and \<open>pendingFetches\<close> count the
  \<^verbatim>\<open>getUserMedia\<close> and \<^verbatim>\<open>fetch\<close> promises that have not settled yet; they belong to the
  event loop, not to the source's variables.\<close>

record capture =
  sampleRate :: int
  bufferSize :: int
  audioContext :: bool
  mediaStream :: bool
  processor :: bool
  input :: bool
  isCurrentlyListening :: bool
  effects :: "effect list"
  pendingMedia :: nat
  pendingFetches :: nat

text \<open>The \<^verbatim>\<open>SpeechState\<close> interface.\<close>

record speech = capture +
  isSpeaking :: bool
  lastSpeechTime :: int
  currentSentence :: string
  silenceStart :: "int option"

definition isListening :: "'a capture_scheme \<Rightarrow> bool" where
  "isListening s = isCurrentlyListening s"

definition emit :: "effect list \<Rightarrow> 'a capture_scheme \<Rightarrow> 'a capture_scheme" where
  "emit es s = s\<lparr>effects := effects s @ es\<rparr>"

text \<open>The first lines of every \<^verbatim>\<open>start\<close> after the guard: the microphone is requested and
  the function is suspended at \<^verbatim>\<open>await navigator.mediaDevices.getUserMedia(...)\<close>.\<close>

definition request_media :: "'a capture_scheme \<Rightarrow> 'a capture_scheme" where
  "request_media s = (emit [GetUserMedia] s)\<lparr>pendingMedia := pendingMedia s + 1\<rparr>"

text \<open>
  The two constructors of the audio graph that can throw. \<^verbatim>\<open>new AudioContext({sampleRate})\<close>
  throws \<^verbatim>\<open>NotSupportedError\<close> for a rate outside the range the browser supports: the Web
  Audio standard requires 8000 to 96000 Hz to be supported, and the range here is the one of
  Chromium, 3000 to 768000 Hz. \<^verbatim>\<open>createScriptProcessor(bufferSize, 1, 1)\<close> throws
  \<^verbatim>\<open>IndexSizeError\<close> unless the size is 0 (the browser chooses) or a power of two from 256 to
  16384.
\<close>

definition audio_context_accepts :: "int \<Rightarrow> bool" where
  "audio_context_accepts rate = (3000 \<le> rate \<and> rate \<le> 768000)"

definition script_processor_accepts :: "int \<Rightarrow> bool" where
  "script_processor_accepts n = (n \<in> set [0, 256, 512, 1024, 2048, 4096, 8192, 16384])"

text \<open>The audio graph of every \<^verbatim>\<open>start\<close>: the context, the source node and the script
  processor are created, in this order, and connected. The result says whether all of it was
  done; when a constructor throws, the variables assigned before keep their values.\<close>

definition create_graph :: "'a capture_scheme \<Rightarrow> bool \<times> 'a capture_scheme" where
  "create_graph s =
     (if \<not> audio_context_accepts (sampleRate s) then (False, s)
      else if \<not> script_processor_accepts (bufferSize s) then
        (False, (emit [CreateAudioContext] s)\<lparr>audioContext := True, input := True\<rparr>)
      else
        (True, (emit [CreateAudioContext] s)\<lparr>audioContext := True, input := True,
           processor := True\<rparr>))"

text \<open>Once the stream is granted it is stored, and the graph is made.\<close>

definition wire_audio :: "'a capture_scheme \<Rightarrow> bool \<times> 'a capture_scheme" where
  "wire_audio s = create_graph (s\<lparr>mediaStream := True\<rparr>)"

text \<open>The frames a script processor delivers to \<^verbatim>\<open>onaudioprocess\<close> while it is connected
  have the size it was created with.\<close>

definition delivers :: "'a capture_scheme \<Rightarrow> real list \<Rightarrow> bool" where
  "delivers s inputData =
     (processor s
      \<and> (if bufferSize s = 0 then script_processor_accepts (int (length inputData))
              \<and> inputData \<noteq> []
          else int (length inputData) = bufferSize s))"

text \<open>The three guarded blocks every \<^verbatim>\<open>stop\<close> shares: disconnect the nodes, stop the
  tracks of the stream, close the context (a context that is not \<^verbatim>\<open>null\<close> is never closed:
  closing and clearing the reference happen together).\<close>

definition release_audio :: "'a capture_scheme \<Rightarrow> 'a capture_scheme" where
  "release_audio s =
     emit ((if mediaStream s then [StopTracks] else [])
           @ (if audioContext s then [CloseAudioContext] else [])) s"

definition clear_refs :: "'a capture_scheme \<Rightarrow> 'a capture_scheme" where
  "clear_refs s = s\<lparr>audioContext := False, mediaStream := False, processor := False,
     input := False\<rparr>"

text \<open>The tail of \<^verbatim>\<open>finalizeSentence\<close> after \<^verbatim>\<open>await response.json()\<close>, and its
  \<^verbatim>\<open>catch\<close> block (the same in the Nano, Whisper and Google services).\<close>

definition on_response :: "response \<Rightarrow> 'a speech_scheme \<Rightarrow> 'a speech_scheme" where
  "on_response r s =
     (case r of
        Body t \<Rightarrow>
          if t \<noteq> [] then
            (let sentence = currentSentence s @ t @ '' ''
             in emit [TranscriptUpdate (trim sentence)] (s\<lparr>currentSentence := sentence\<rparr>))
          else s
      | NotOk \<Rightarrow> emit [ConsoleError] s
      | Threw \<Rightarrow> emit [ConsoleError] s)"

section \<open>The Nano adapter (\<^verbatim>\<open>AssemblyAINanoService.ts\<close>)\<close>

text \<open>\<open>onTranscriptionStart\<close> says whether the callback was supplied. The creation function
  takes the sample rate and that option; the buffer size has its default.\<close>

record nano = speech +
  audioChunks :: "real list list"
  onTranscriptionStart :: bool

definition createAssemblyAINanoService :: "int \<Rightarrow> bool \<Rightarrow> nano" where
  "createAssemblyAINanoService rate callback =
     \<lparr>sampleRate = rate, bufferSize = 4096, audioContext = False, mediaStream = False,
      processor = False, input = False,
      isCurrentlyListening = False, effects = [], pendingMedia = 0, pendingFetches = 0,
      isSpeaking = False, lastSpeechTime = 0, currentSentence = [], silenceStart = None,
      audioChunks = [], onTranscriptionStart = callback\<rparr>"

text \<open>\<^verbatim>\<open>finalizeSentence\<close> up to \<^verbatim>\<open>await fetch(...)\<close>.\<close>

definition nano_finalizeSentence :: "nano \<Rightarrow> nano" where
  "nano_finalizeSentence s =
     (if audioChunks s = [] then s
      else
        (let audioBuffer = concat (audioChunks s);
             wavBuffer = float32ToWav audioBuffer (sampleRate s)
         in (emit ((if onTranscriptionStart s then [TranscriptionStart] else [])
                   @ [Fetch ''/api/assemblyai/transcribe'' (Wav wavBuffer) None])
               (s\<lparr>isSpeaking := False, silenceStart := None, audioChunks := []\<rparr>))
            \<lparr>pendingFetches := pendingFetches s + 1\<rparr>))"

text \<open>The rest of \<^verbatim>\<open>finalizeSentence\<close>, run when the request settles.\<close>

definition nano_finalizeSentence_resume :: "response \<Rightarrow> nano \<Rightarrow> nano" where
  "nano_finalizeSentence_resume r s = on_response r (s\<lparr>pendingFetches := pendingFetches s - 1\<rparr>)"

text \<open>\<^verbatim>\<open>processAudioData\<close>; \<^verbatim>\<open>noiseThreshold = 0.01\<close> is the double nearest to 1/100, and
  \<^verbatim>\<open>silenceThreshold = 1500\<close>.\<close>

definition nano_processAudioData :: "real list \<Rightarrow> int \<Rightarrow> nano \<Rightarrow> nano" where
  "nano_processAudioData inputData now s0 =
     (let s = s0\<lparr>audioChunks := audioChunks s0 @ [inputData]\<rparr>;
          volume = calculateVolume inputData
      in if exceeds volume (fl (1 / 100)) then
           s\<lparr>isSpeaking := True, lastSpeechTime := now, silenceStart := None\<rparr>
         else if isSpeaking s then
           (case silenceStart s of
              None \<Rightarrow> s\<lparr>silenceStart := Some now\<rparr>
            | Some t \<Rightarrow> if now - t > 1500 then nano_finalizeSentence s else s)
         else s)"

definition nano_start :: "nano \<Rightarrow> status \<times> nano" where
  "nano_start s = (if isCurrentlyListening s then (Resolved, s) else (Pending, request_media s))"

text \<open>The continuation of \<^verbatim>\<open>start\<close> when \<^verbatim>\<open>getUserMedia\<close> settles. A constructor that
  throws ends in the \<^verbatim>\<open>catch\<close> block, like a refused microphone: the error is logged and
  rethrown.\<close>

definition nano_start_resume :: "bool \<Rightarrow> nano \<Rightarrow> status \<times> nano" where
  "nano_start_resume granted s0 =
     (let s = s0\<lparr>pendingMedia := pendingMedia s0 - 1\<rparr>
      in if granted then
           (let (ok, s) = wire_audio s
            in if ok then
                 (Resolved, s\<lparr>isCurrentlyListening := True, currentSentence := []\<rparr>)
               else (Rejected, emit [ConsoleError] s))
         else (Rejected, emit [ConsoleError] s))"

definition nano_stop :: "nano \<Rightarrow> nano" where
  "nano_stop s0 =
     (if \<not> isCurrentlyListening s0 then s0
      else
        (let s = release_audio s0;
             s = (clear_refs s)\<lparr>isCurrentlyListening := False, audioChunks := []\<rparr>
         in if isSpeaking s then nano_finalizeSentence s else s))"

text \<open>The adapter as the event loop drives it. An audio frame arrives only while the script
  processor is connected, and has its size; a media result arrives only for a pending request,
  a response only for a request in flight.\<close>

datatype event =
    Start
  | Media bool
  | Audio "real list" int
  | Response response
  | Stop
  | Timer

fun nano_step :: "nano \<Rightarrow> event \<Rightarrow> nano" where
  "nano_step s Start = snd (nano_start s)"
| "nano_step s (Media granted) = (if pendingMedia s > 0 then snd (nano_start_resume granted s) else s)"
| "nano_step s (Audio inputData now) =
     (if delivers s inputData then nano_processAudioData inputData now s else s)"
| "nano_step s (Response r) = (if pendingFetches s > 0 then nano_finalizeSentence_resume r s else s)"
| "nano_step s Stop = nano_stop s"
| "nano_step s Timer = s"

definition nano_run :: "nano \<Rightarrow> event list \<Rightarrow> nano" where
  "nano_run s evs = foldl nano_step s evs"

section \<open>The Whisper adapter (\<^verbatim>\<open>WhisperService.ts\<close>)\<close>

text \<open>The Whisper service declares the state of the Nano service and three more variables.
  \<open>finalizationTimer\<close> is the variable (not \<^verbatim>\<open>null\<close>); \<open>timerArmed\<close> says that the
  timeout has neither fired nor been cleared.\<close>

record whisper = nano +
  currentLanguage :: string
  finalizationTimer :: bool
  timerArmed :: bool

definition createWhisperService :: "int \<Rightarrow> bool \<Rightarrow> string \<Rightarrow> whisper" where
  "createWhisperService rate callback language =
     \<lparr>sampleRate = rate, bufferSize = 4096, audioContext = False, mediaStream = False,
      processor = False, input = False,
      isCurrentlyListening = False, effects = [], pendingMedia = 0, pendingFetches = 0,
      isSpeaking = False, lastSpeechTime = 0, currentSentence = [], silenceStart = None,
      audioChunks = [], onTranscriptionStart = callback,
      currentLanguage = language, finalizationTimer = False, timerArmed = False\<rparr>"

definition whisper_finalizeSentence :: "whisper \<Rightarrow> whisper" where
  "whisper_finalizeSentence s =
     (if audioChunks s = [] then s
      else
        (let audioBuffer = concat (audioChunks s);
             wavBuffer = float32ToWav audioBuffer (sampleRate s)
         in (emit ((if onTranscriptionStart s then [TranscriptionStart] else [])
                   @ [Fetch ''/api/whisper'' (Wav wavBuffer) (Some (currentLanguage s))])
               (s\<lparr>isSpeaking := False, silenceStart := None, audioChunks := []\<rparr>))
            \<lparr>pendingFetches := pendingFetches s + 1\<rparr>))"

definition whisper_finalizeSentence_resume :: "response \<Rightarrow> whisper \<Rightarrow> whisper" where
  "whisper_finalizeSentence_resume r s =
     on_response r (s\<lparr>pendingFetches := pendingFetches s - 1\<rparr>)"

text \<open>\<^verbatim>\<open>processAudioData\<close>; \<^verbatim>\<open>noiseThreshold = 0.005\<close> is the double nearest to 5/1000, and
  \<^verbatim>\<open>silenceThreshold = 1000\<close>.\<close>

definition whisper_processAudioData :: "real list \<Rightarrow> int \<Rightarrow> whisper \<Rightarrow> whisper" where
  "whisper_processAudioData inputData now s0 =
     (let s = s0\<lparr>audioChunks := audioChunks s0 @ [inputData]\<rparr>
      in if length (audioChunks s) > 50 then whisper_finalizeSentence s
         else
           (let volume = calculateVolume inputData
            in if exceeds volume (fl (5 / 1000)) then
                 s\<lparr>isSpeaking := True, lastSpeechTime := now, silenceStart := None\<rparr>
               else if isSpeaking s then
                 (case silenceStart s of
                    None \<Rightarrow> s\<lparr>silenceStart := Some now\<rparr>
                  | Some t \<Rightarrow> if now - t > 1000 then whisper_finalizeSentence s else s)
               else s))"

definition whisper_start :: "whisper \<Rightarrow> status \<times> whisper" where
  "whisper_start s = (if isCurrentlyListening s then (Resolved, s) else (Pending, request_media s))"

definition whisper_start_resume :: "bool \<Rightarrow> whisper \<Rightarrow> status \<times> whisper" where
  "whisper_start_resume granted s0 =
     (let s = s0\<lparr>pendingMedia := pendingMedia s0 - 1\<rparr>
      in if granted then
           (let (ok, s) = wire_audio s
            in if ok then
                 (Resolved, s\<lparr>isCurrentlyListening := True, currentSentence := [],
                    audioChunks := [], finalizationTimer := True, timerArmed := True\<rparr>)
               else (Rejected, emit [ConsoleError] s))
         else (Rejected, emit [ConsoleError] s))"

text \<open>The callback of the three-second timer.\<close>

definition whisper_timer :: "whisper \<Rightarrow> whisper" where
  "whisper_timer s0 =
     (let s = s0\<lparr>timerArmed := False\<rparr>
      in if audioChunks s \<noteq> [] then whisper_finalizeSentence s else s)"

definition whisper_stop :: "whisper \<Rightarrow> whisper" where
  "whisper_stop s0 =
     (if \<not> isCurrentlyListening s0 then s0
      else
        (let s = (if finalizationTimer s0 then s0\<lparr>finalizationTimer := False, timerArmed := False\<rparr>
                  else s0);
             s = (if audioChunks s \<noteq> [] then whisper_finalizeSentence s else s);
             s = release_audio s
         in (clear_refs s)\<lparr>isCurrentlyListening := False\<rparr>))"

definition whisper_updateLanguage :: "string \<Rightarrow> whisper \<Rightarrow> whisper" where
  "whisper_updateLanguage newLanguage s = s\<lparr>currentLanguage := newLanguage\<rparr>"

fun whisper_step :: "whisper \<Rightarrow> event \<Rightarrow> whisper" where
  "whisper_step s Start = snd (whisper_start s)"
| "whisper_step s (Media granted) =
     (if pendingMedia s > 0 then snd (whisper_start_resume granted s) else s)"
| "whisper_step s (Audio inputData now) =
     (if delivers s inputData then whisper_processAudioData inputData now s else s)"
| "whisper_step s (Response r) =
     (if pendingFetches s > 0 then whisper_finalizeSentence_resume r s else s)"
| "whisper_step s Stop = whisper_stop s"
| "whisper_step s Timer = (if timerArmed s then whisper_timer s else s)"

definition whisper_run :: "whisper \<Rightarrow> event list \<Rightarrow> whisper" where
  "whisper_run s evs = foldl whisper_step s evs"

section \<open>The Google adapter (\<^verbatim>\<open>GoogleSpeechService.ts\<close>)\<close>

text \<open>The upload is what a \<^verbatim>\<open>MediaRecorder\<close> recorded, not the float frames: \<open>recordedChunks\<close>
  holds the recorded blobs (as identifiers) and \<open>mediaRecorder\<close> the recorder, with its
  \<^verbatim>\<open>state\<close>, when the variable is not \<^verbatim>\<open>null\<close>.\<close>

datatype recorder_state = Recording | Inactive

record google = speech +
  googleChunks :: "real list list"
  mediaRecorder :: "recorder_state option"
  recordedChunks :: "nat list"
  isRecording :: bool
  language :: string

definition createGoogleSpeechService :: "string \<Rightarrow> google" where
  "createGoogleSpeechService lang =
     \<lparr>sampleRate = 16000, bufferSize = 4096, audioContext = False, mediaStream = False,
      processor = False, input = False,
      isCurrentlyListening = False, effects = [], pendingMedia = 0, pendingFetches = 0,
      isSpeaking = False, lastSpeechTime = 0, currentSentence = [], silenceStart = None,
      googleChunks = [], mediaRecorder = None, recordedChunks = [], isRecording = False,
      language = lang\<rparr>"

text \<open>\<^verbatim>\<open>startRecording\<close>; the \<^verbatim>\<open>MediaRecorder\<close> constructor is taken not to throw.\<close>

definition google_startRecording :: "google \<Rightarrow> google" where
  "google_startRecording s =
     (if \<not> mediaStream s then s
      else (emit [RecorderStart] s)\<lparr>mediaRecorder := Some Recording, isRecording := True\<rparr>)"

definition google_finalizeSentence :: "google \<Rightarrow> google" where
  "google_finalizeSentence s =
     (if recordedChunks s = [] then s
      else
        (emit [Fetch ''/api/google/transcribe'' (Blob (recordedChunks s)) (Some (language s))]
           (s\<lparr>isSpeaking := False, silenceStart := None, isRecording := False,
               recordedChunks := []\<rparr>))
        \<lparr>pendingFetches := pendingFetches s + 1\<rparr>)"

definition google_finalizeSentence_resume :: "response \<Rightarrow> google \<Rightarrow> google" where
  "google_finalizeSentence_resume r s0 =
     (let s = on_response r (s0\<lparr>pendingFetches := pendingFetches s0 - 1\<rparr>)
      in if isCurrentlyListening s \<and> mediaRecorder s \<noteq> None then google_startRecording s else s)"

text \<open>\<^verbatim>\<open>processAudioData\<close>; \<^verbatim>\<open>noiseThreshold = 0.01\<close> and \<^verbatim>\<open>silenceThreshold = 2000\<close>.\<close>

definition google_processAudioData :: "real list \<Rightarrow> int \<Rightarrow> google \<Rightarrow> google" where
  "google_processAudioData inputData now s0 =
     (let s = s0\<lparr>googleChunks := googleChunks s0 @ [inputData]\<rparr>;
          volume = calculateVolume inputData
      in if exceeds volume (fl (1 / 100)) then
           s\<lparr>isSpeaking := True, lastSpeechTime := now, silenceStart := None\<rparr>
         else if isSpeaking s then
           (case silenceStart s of
              None \<Rightarrow> s\<lparr>silenceStart := Some now\<rparr>
            | Some t \<Rightarrow> if now - t > 2000 then google_finalizeSentence s else s)
         else s)"

text \<open>The recorder's \<^verbatim>\<open>ondataavailable\<close> and \<^verbatim>\<open>onstop\<close> handlers.\<close>

definition google_ondataavailable :: "nat \<Rightarrow> nat \<Rightarrow> google \<Rightarrow> google" where
  "google_ondataavailable blob bytes s =
     (if bytes > 0 then s\<lparr>recordedChunks := recordedChunks s @ [blob]\<rparr> else s)"

definition google_onstop :: "google \<Rightarrow> google" where
  "google_onstop s = (if isRecording s then google_finalizeSentence s else s)"

text \<open>The ten-second timeout set by \<^verbatim>\<open>startRecording\<close>.\<close>

definition google_recorder_timeout :: "google \<Rightarrow> google" where
  "google_recorder_timeout s =
     (if mediaRecorder s = Some Recording then (emit [RecorderStop] s)\<lparr>mediaRecorder := Some Inactive\<rparr>
      else s)"

definition google_start :: "google \<Rightarrow> status \<times> google" where
  "google_start s = (if isCurrentlyListening s then (Resolved, s) else (Pending, request_media s))"

definition google_start_resume :: "bool \<Rightarrow> google \<Rightarrow> status \<times> google" where
  "google_start_resume granted s0 =
     (let s = s0\<lparr>pendingMedia := pendingMedia s0 - 1\<rparr>
      in if granted then
           (let (ok, s) = wire_audio s
            in if ok then
                 (Resolved, (google_startRecording s)
                    \<lparr>isCurrentlyListening := True, currentSentence := []\<rparr>)
               else (Rejected, emit [ConsoleError] s))
         else (Rejected, emit [ConsoleError] s))"

definition google_stop :: "google \<Rightarrow> google" where
  "google_stop s0 =
     (if \<not> isCurrentlyListening s0 then s0
      else
        (let s = (if mediaRecorder s0 = Some Recording then emit [RecorderStop] s0 else s0);
             s = release_audio s;
             s = (clear_refs s)\<lparr>mediaRecorder := None, isCurrentlyListening := False,
                   googleChunks := []\<rparr>
         in if recordedChunks s \<noteq> [] then google_finalizeSentence s else s))"

section \<open>The Realtime adapter (\<^verbatim>\<open>RealtimeService.ts\<close>)\<close>

text \<open>The two thresholds are options with defaults 0.015 (the double nearest to 15/1000) and
  1500; the orchestrator passes neither.\<close>

record realtime = speech +
  fullTranscript :: string
  noiseThreshold :: real
  silenceThreshold :: int

definition createRealtimeService :: realtime where
  "createRealtimeService =
     \<lparr>sampleRate = 16000, bufferSize = 4096, audioContext = False, mediaStream = False,
      processor = False, input = False,
      isCurrentlyListening = False, effects = [], pendingMedia = 0, pendingFetches = 0,
      isSpeaking = False, lastSpeechTime = 0, currentSentence = [], silenceStart = None,
      fullTranscript = [], noiseThreshold = fl (15 / 1000), silenceThreshold = 1500\<rparr>"

text \<open>\<open>timestamp\<close> is \<^verbatim>\<open>new Date().toLocaleTimeString()\<close>.\<close>

definition realtime_finalizeSentence :: "string \<Rightarrow> realtime \<Rightarrow> realtime" where
  "realtime_finalizeSentence timestamp s =
     (if isSpeaking s then
        (let sentence = ''[Speech detected at '' @ timestamp @ ''] '';
             transcript = fullTranscript s @ sentence
         in emit [TranscriptUpdate transcript]
              (s\<lparr>fullTranscript := transcript, isSpeaking := False, currentSentence := [],
                  silenceStart := None\<rparr>))
      else s)"

text \<open>The volume of the Realtime service: the mean of the absolute values, each sum and the
  quotient rounded (\<^verbatim>\<open>Math.abs\<close> is exact; the quotient of an empty buffer is \<^verbatim>\<open>NaN\<close>).\<close>

definition realtime_average :: "real list \<Rightarrow> real option" where
  "realtime_average inputData =
     (if inputData = [] then None
      else Some (fl (foldl (\<lambda>sum x. fl (sum + \<bar>x\<bar>)) 0 inputData
                       / real (length inputData))))"

definition realtime_processAudioData :: "real list \<Rightarrow> int \<Rightarrow> string \<Rightarrow> realtime \<Rightarrow> realtime" where
  "realtime_processAudioData inputData now timestamp s =
     (let average = realtime_average inputData
      in if exceeds average (noiseThreshold s) then
           (if \<not> isSpeaking s then s\<lparr>isSpeaking := True, silenceStart := None\<rparr> else s)
             \<lparr>lastSpeechTime := now\<rparr>
         else if isSpeaking s then
           (case silenceStart s of
              None \<Rightarrow> s\<lparr>silenceStart := Some now\<rparr>
            | Some t \<Rightarrow>
                if now - t > silenceThreshold s then realtime_finalizeSentence timestamp s else s)
         else s)"

definition realtime_start :: "realtime \<Rightarrow> status \<times> realtime" where
  "realtime_start s = (if isCurrentlyListening s then (Resolved, s) else (Pending, request_media s))"

definition realtime_start_resume :: "bool \<Rightarrow> realtime \<Rightarrow> status \<times> realtime" where
  "realtime_start_resume granted s0 =
     (let s = s0\<lparr>pendingMedia := pendingMedia s0 - 1\<rparr>
      in if granted then
           (let (ok, s) = wire_audio s
            in if ok then
                 (Resolved, s\<lparr>isCurrentlyListening := True\<rparr>)
               else (Rejected, emit [ConsoleError] s))
         else (Rejected, emit [ConsoleError] s))"

definition realtime_stop :: "string \<Rightarrow> realtime \<Rightarrow> realtime" where
  "realtime_stop timestamp s0 =
     (if \<not> isCurrentlyListening s0 then s0
      else
        (let s = (if isSpeaking s0 then realtime_finalizeSentence timestamp s0 else s0);
             s = release_audio s
         in (clear_refs s)\<lparr>isCurrentlyListening := False\<rparr>))"

section \<open>The AssemblyAI streaming adapter (\<^verbatim>\<open>AssemblyAIService.ts\<close>)\<close>

record assemblyai = capture +
  transcriber :: bool
  aaiTranscript :: string
  apiKey :: string

definition createAssemblyAIService :: "string \<Rightarrow> assemblyai" where
  "createAssemblyAIService key =
     \<lparr>sampleRate = 16000, bufferSize = 4096, audioContext = False, mediaStream = False,
      processor = False, input = False,
      isCurrentlyListening = False, effects = [], pendingMedia = 0, pendingFetches = 0,
      transcriber = False, aaiTranscript = [], apiKey = key\<rparr>"

text \<open>\<^verbatim>\<open>convertFloat32ToInt16\<close>: the clamped sample times \<open>0x7FFF\<close>, stored in an
  \<^verbatim>\<open>Int16Array\<close> (truncated towards zero).\<close>

definition convertFloat32ToInt16 :: "real list \<Rightarrow> int list" where
  "convertFloat32ToInt16 buffer = map (\<lambda>x. js_trunc (min 1 (max (- 1) x) * 32767)) buffer"

text \<open>\<^verbatim>\<open>start\<close> has three suspension points: the microphone, the token request and the
  connection. Without an API key it throws before the first.\<close>

definition assemblyai_start :: "assemblyai \<Rightarrow> status \<times> assemblyai" where
  "assemblyai_start s =
     (if isCurrentlyListening s then (Resolved, s)
      else if apiKey s = [] then (Rejected, emit [ConsoleError] s)
      else (Pending, request_media s))"

definition assemblyai_start_media :: "bool \<Rightarrow> assemblyai \<Rightarrow> status \<times> assemblyai" where
  "assemblyai_start_media granted s0 =
     (let s = s0\<lparr>pendingMedia := pendingMedia s0 - 1\<rparr>
      in if granted then (Pending, emit [FetchToken] (s\<lparr>mediaStream := True\<rparr>))
         else (Rejected, emit [ConsoleError] s))"

text \<open>The token request is wrapped in its own \<^verbatim>\<open>try\<close>: without a token the transcriber is
  made from the API key. Then the handlers are registered and the connection is awaited.\<close>

definition assemblyai_start_token :: "bool \<Rightarrow> assemblyai \<Rightarrow> status \<times> assemblyai" where
  "assemblyai_start_token token s =
     (Pending, emit ((if token then [] else [ConsoleError]) @ [Connect]) (s\<lparr>transcriber := True\<rparr>))"

definition assemblyai_start_connect :: "bool \<Rightarrow> assemblyai \<Rightarrow> status \<times> assemblyai" where
  "assemblyai_start_connect opened s0 =
     (if opened then
        (let (ok, s) = create_graph s0
         in if ok then (Resolved, s\<lparr>isCurrentlyListening := True\<rparr>)
            else (Rejected, emit [ConsoleError] s))
      else (Rejected, emit [ConsoleError] s0))"

definition assemblyai_stop :: "assemblyai \<Rightarrow> assemblyai" where
  "assemblyai_stop s0 =
     (if \<not> isCurrentlyListening s0 then s0
      else
        (let s = (if transcriber s0 then (emit [CloseTranscriber] s0)\<lparr>transcriber := False\<rparr>
                  else s0);
             s = release_audio s
         in (clear_refs s)\<lparr>isCurrentlyListening := False\<rparr>))"

text \<open>The \<^verbatim>\<open>transcript\<close> handler (\<open>final\<close>: the message type is \<^verbatim>\<open>FinalTranscript\<close>), the
  \<^verbatim>\<open>error\<close> handler and the audio callback.\<close>

definition assemblyai_on_transcript :: "bool \<Rightarrow> string \<Rightarrow> assemblyai \<Rightarrow> assemblyai" where
  "assemblyai_on_transcript final text s =
     (if text = [] then s
      else if final then
        (let transcript = aaiTranscript s @ '' '' @ text
         in emit [TranscriptUpdate (trim transcript)] (s\<lparr>aaiTranscript := transcript\<rparr>))
      else s)"

definition assemblyai_on_error :: "assemblyai \<Rightarrow> assemblyai" where
  "assemblyai_on_error s = assemblyai_stop (emit [ConsoleError] s)"

definition assemblyai_onaudioprocess :: "real list \<Rightarrow> assemblyai \<Rightarrow> assemblyai" where
  "assemblyai_onaudioprocess inputData s =
     (if \<not> transcriber s then s else emit [SendAudio (convertFloat32ToInt16 inputData)] s)"

section \<open>The Web Speech adapter (\<^verbatim>\<open>WebSpeechService.ts\<close>)\<close>

text \<open>
  The variables of the closure are \<^verbatim>\<open>recognition\<close> (\<open>True\<close> when it is not \<^verbatim>\<open>null\<close>),
  \<^verbatim>\<open>listening\<close> and \<^verbatim>\<open>fullTranscript\<close> (here \<open>ws_listening\<close> and \<open>ws_fullTranscript\<close>);
  \<open>ws_onTranscriptionStart\<close> says whether the callback was supplied. Two more fields belong to
  the browser and the event loop: \<open>recognizing\<close> holds from the call of \<^verbatim>\<open>recognition.start()\<close>
  to the \<^verbatim>\<open>end\<close> event of the recogniser, which captures the microphone meanwhile, and
  \<open>ws_pending\<close> counts the calls of \<^verbatim>\<open>start\<close> suspended at the promise that waits for the
  \<^verbatim>\<open>start\<close> or the \<^verbatim>\<open>error\<close> event.
\<close>

record webspeech =
  recognition :: bool
  ws_listening :: bool
  ws_fullTranscript :: string
  ws_onTranscriptionStart :: bool
  ws_effects :: "effect list"
  recognizing :: bool
  ws_pending :: nat

definition createWebSpeechService :: "bool \<Rightarrow> webspeech" where
  "createWebSpeechService callback =
     \<lparr>recognition = False, ws_listening = False, ws_fullTranscript = [],
      ws_onTranscriptionStart = callback, ws_effects = [], recognizing = False, ws_pending = 0\<rparr>"

definition ws_emit :: "effect list \<Rightarrow> webspeech \<Rightarrow> webspeech" where
  "ws_emit es s = s\<lparr>ws_effects := ws_effects s @ es\<rparr>"

text \<open>
  \<^verbatim>\<open>start\<close> up to its \<^verbatim>\<open>await\<close>. \<open>supported\<close> says that the window has a
  \<^verbatim>\<open>SpeechRecognition\<close> or \<^verbatim>\<open>webkitSpeechRecognition\<close> constructor; without one
  \<^verbatim>\<open>initialize\<close> throws. \<^verbatim>\<open>recognition.start()\<close> throws \<^verbatim>\<open>InvalidStateError\<close> when the
  recogniser has been started and has not ended. Both exceptions end in the \<^verbatim>\<open>catch\<close> block,
  which logs and rethrows.
\<close>

definition webspeech_start :: "bool \<Rightarrow> webspeech \<Rightarrow> status \<times> webspeech" where
  "webspeech_start supported s0 =
     (if ws_listening s0 then (Resolved, s0)
      else if \<not> recognition s0 \<and> \<not> supported then (Rejected, ws_emit [ConsoleError] s0)
      else
        (let s = s0\<lparr>recognition := True\<rparr>;
             s = ws_emit (if ws_onTranscriptionStart s then [TranscriptionStart] else []) s
         in if recognizing s then (Rejected, ws_emit [ConsoleError] s)
            else (Pending, (ws_emit [RecognitionStart] s)\<lparr>recognizing := True,
                    ws_pending := ws_pending s + 1\<rparr>)))"

text \<open>The \<^verbatim>\<open>start\<close> event: \<^verbatim>\<open>onstart\<close> sets the flag and the suspended \<^verbatim>\<open>start\<close> resolves.\<close>

definition webspeech_onstart :: "webspeech \<Rightarrow> webspeech" where
  "webspeech_onstart s = s\<lparr>ws_listening := True, ws_pending := 0\<rparr>"

text \<open>The \<^verbatim>\<open>error\<close> event: \<^verbatim>\<open>onerror\<close> logs and clears the flag; a suspended \<^verbatim>\<open>start\<close>
  rejects, and its \<^verbatim>\<open>catch\<close> block logs again.\<close>

definition webspeech_onerror :: "webspeech \<Rightarrow> webspeech" where
  "webspeech_onerror s =
     (ws_emit (ConsoleError # replicate (ws_pending s) ConsoleError) s)
       \<lparr>ws_listening := False, ws_pending := 0\<rparr>"

text \<open>The \<^verbatim>\<open>end\<close> event.\<close>

definition webspeech_onend :: "webspeech \<Rightarrow> webspeech" where
  "webspeech_onend s = s\<lparr>ws_listening := False, recognizing := False\<rparr>"

text \<open>The \<^verbatim>\<open>result\<close> event; \<open>final\<close> and \<open>interim\<close> are the concatenations the loop of
  \<^verbatim>\<open>onresult\<close> builds.\<close>

definition webspeech_onresult :: "string \<Rightarrow> string \<Rightarrow> webspeech \<Rightarrow> webspeech" where
  "webspeech_onresult final interim s =
     (if final \<noteq> [] then
        (let transcript = ws_fullTranscript s @ '' '' @ final
         in ws_emit [TranscriptUpdate (trim transcript)] (s\<lparr>ws_fullTranscript := transcript\<rparr>))
      else if interim \<noteq> [] then
        ws_emit [TranscriptUpdate (trim (ws_fullTranscript s @ '' '' @ interim))] s
      else s)"

text \<open>\<^verbatim>\<open>stop\<close> only asks the recogniser to stop: \<^verbatim>\<open>listening\<close> stays true until the \<^verbatim>\<open>end\<close>
  event.\<close>

definition webspeech_stop :: "webspeech \<Rightarrow> webspeech" where
  "webspeech_stop s =
     (if \<not> ws_listening s \<or> \<not> recognition s then s else ws_emit [RecognitionStop] s)"

definition webspeech_isListening :: "webspeech \<Rightarrow> bool" where
  "webspeech_isListening s = ws_listening s"

text \<open>The adapter as the event loop drives it. The recogniser fires \<^verbatim>\<open>start\<close> once after it
  has been started, \<^verbatim>\<open>error\<close> and \<^verbatim>\<open>result\<close> while it is started, and \<^verbatim>\<open>end\<close> last (after
  \<^verbatim>\<open>start\<close> or \<^verbatim>\<open>error\<close>).\<close>

datatype ws_event =
    WsStart bool
  | WsStop
  | RecStart
  | RecError
  | RecResult string string
  | RecEnd

fun webspeech_step :: "webspeech \<Rightarrow> ws_event \<Rightarrow> webspeech" where
  "webspeech_step s (WsStart supported) = snd (webspeech_start supported s)"
| "webspeech_step s WsStop = webspeech_stop s"
| "webspeech_step s RecStart =
     (if recognizing s \<and> ws_pending s > 0 then webspeech_onstart s else s)"
| "webspeech_step s RecError = (if recognizing s then webspeech_onerror s else s)"
| "webspeech_step s (RecResult final interim) =
     (if recognizing s \<and> ws_pending s = 0 then webspeech_onresult final interim s else s)"
| "webspeech_step s RecEnd =
     (if recognizing s \<and> ws_pending s = 0 then webspeech_onend s else s)"

definition webspeech_run :: "webspeech \<Rightarrow> ws_event list \<Rightarrow> webspeech" where
  "webspeech_run s evs = foldl webspeech_step s evs"

section \<open>Reading the effect log\<close>

text \<open>The texts passed to \<^verbatim>\<open>onTranscriptUpdate\<close> and the bodies of the transcription requests,
  in order.\<close>

fun transcript_updates :: "effect list \<Rightarrow> string list" where
  "transcript_updates [] = []"
| "transcript_updates (TranscriptUpdate t # es) = t # transcript_updates es"
| "transcript_updates (e # es) = transcript_updates es"

fun requests :: "effect list \<Rightarrow> body list" where
  "requests [] = []"
| "requests (Fetch url b lang # es) = b # requests es"
| "requests (e # es) = requests es"

section \<open>The recognition orchestrator (\<^verbatim>\<open>SpeechRecognitionService.ts\<close>)\<close>

datatype STTApi = WebSpeech | Realtime | AssemblyAI | Whisper | AssemblyAINano | GoogleSpeech

text \<open>
  The orchestrator sees an adapter through \<^verbatim>\<open>start\<close>, \<^verbatim>\<open>stop\<close> and \<^verbatim>\<open>isListening\<close> only.
  A \<open>service\<close> is what it can observe of an instance: the backend it was created for, the
  answer of \<^verbatim>\<open>isListening()\<close>, whether the instance holds the microphone (a live stream, or
  for the Web Speech adapter a started recogniser), and how many of its \<^verbatim>\<open>start()\<close> calls are
  suspended at an \<^verbatim>\<open>await\<close>. The adapters behave so: lemma \<open>adapters_refine_service\<close> below
  shows it for the Nano, Whisper, Google and Realtime adapters and lemma
  \<open>webspeech_refines_service\<close> for the Web Speech adapter.
\<close>

record service =
  api :: STTApi
  listening :: bool
  microphone :: bool
  starting :: nat

text \<open>How a suspended \<^verbatim>\<open>start()\<close> of an adapter ends: capture is active, or the call
  rejects; \<open>Failed True\<close> when the microphone had been acquired before the failure and is
  kept (a constructor of the audio graph threw, the connection of the AssemblyAI adapter
  failed, the recogniser of the Web Speech adapter fired \<^verbatim>\<open>error\<close> and has not ended yet).\<close>

datatype outcome = Started | Failed bool

text \<open>\<^verbatim>\<open>start\<close> of an adapter, up to its first \<^verbatim>\<open>await\<close>. The Web Speech adapter starts its
  recogniser at once, and rejects when the recogniser is started already.\<close>

definition service_start :: "service \<Rightarrow> status \<times> service" where
  "service_start sv =
     (if listening sv then (Resolved, sv)
      else if api sv = WebSpeech then
        (if microphone sv then (Rejected, sv)
         else (Pending, sv\<lparr>microphone := True, starting := starting sv + 1\<rparr>))
      else (Pending, sv\<lparr>starting := starting sv + 1\<rparr>))"

definition service_settle :: "outcome \<Rightarrow> service \<Rightarrow> status \<times> service" where
  "service_settle out sv =
     (case out of
        Started \<Rightarrow>
          (Resolved, sv\<lparr>listening := True, microphone := True, starting := starting sv - 1\<rparr>)
      | Failed kept \<Rightarrow>
          (Rejected,
           sv\<lparr>microphone := (if api sv = WebSpeech then kept else microphone sv \<or> kept),
              starting := starting sv - 1\<rparr>))"

text \<open>\<^verbatim>\<open>stop\<close> of an adapter. The Web Speech adapter only asks its recogniser to stop: it
  listens and captures until the \<^verbatim>\<open>end\<close> event.\<close>

definition service_stop :: "service \<Rightarrow> service" where
  "service_stop sv =
     (if \<not> listening sv \<or> api sv = WebSpeech then sv
      else sv\<lparr>listening := False, microphone := False\<rparr>)"

text \<open>The \<^verbatim>\<open>end\<close> event of the recogniser of a Web Speech adapter, and its \<^verbatim>\<open>error\<close> event
  when no \<^verbatim>\<open>start()\<close> is suspended.\<close>

definition service_end :: "service \<Rightarrow> service" where
  "service_end sv = sv\<lparr>listening := False, microphone := False\<rparr>"

definition service_error :: "service \<Rightarrow> service" where
  "service_error sv = sv\<lparr>listening := False\<rparr>"

text \<open>What an adapter of the repository shows to the orchestrator.\<close>

definition service_of :: "STTApi \<Rightarrow> 'a capture_scheme \<Rightarrow> service" where
  "service_of a s =
     \<lparr>api = a, listening = isCurrentlyListening s, microphone = mediaStream s,
      starting = pendingMedia s\<rparr>"

definition service_of_webspeech :: "webspeech \<Rightarrow> service" where
  "service_of_webspeech s =
     \<lparr>api = WebSpeech, listening = ws_listening s, microphone = recognizing s,
      starting = ws_pending s\<rparr>"

text \<open>What the orchestrator does that its environment observes.\<close>

datatype notice =
    NotifyTranscriptionStart
  | AdapterStart nat
  | AdapterStop nat
  | DurationUpdate int
  | LogError
  | StartResolved
  | StartRejected

text \<open>A suspended \<^verbatim>\<open>start()\<close> of the orchestrator waits in the \<^verbatim>\<open>try\<close> block (\<open>First\<close>) or
  in the \<^verbatim>\<open>catch\<close> block, for the fallback (\<open>Fallback\<close>).\<close>

datatype phase = First | Fallback

text \<open>
  The state of the closure. \<open>services\<close> holds every adapter instance created so far, current or
  not: an instance is its index, and \<open>currentService\<close> is the index of the current one.
  \<open>awaiting\<close> lists the suspended \<^verbatim>\<open>start()\<close> calls with the instance whose promise each
  awaits. \<open>withTranscriptionStart\<close> and \<open>withDurationUpdate\<close> say which optional callbacks
  were supplied.
\<close>

record orchestrator =
  currentApi :: STTApi
  currentService :: "nat option"
  services :: "service list"
  startTime :: "int option"
  endTime :: "int option"
  durationMs :: int
  durationInterval :: bool
  withTranscriptionStart :: bool
  withDurationUpdate :: bool
  awaiting :: "(nat \<times> phase) list"
  trace :: "notice list"

definition notify :: "notice list \<Rightarrow> orchestrator \<Rightarrow> orchestrator" where
  "notify ns s = s\<lparr>trace := trace s @ ns\<rparr>"

text \<open>\<^verbatim>\<open>createService\<close> makes a fresh instance; the six cases of the \<^verbatim>\<open>switch\<close> differ in the
  options they pass, and the \<^verbatim>\<open>default\<close> case cannot be reached.\<close>

definition createService :: "STTApi \<Rightarrow> orchestrator \<Rightarrow> nat \<times> orchestrator" where
  "createService a s =
     (length (services s),
      s\<lparr>services := services s @ [\<lparr>api = a, listening = False, microphone = False, starting = 0\<rparr>]\<rparr>)"

text \<open>A timestamp is truthy unless it is \<^verbatim>\<open>null\<close> or 0.\<close>

definition truthy :: "int option \<Rightarrow> bool" where
  "truthy t = (case t of None \<Rightarrow> False | Some v \<Rightarrow> v \<noteq> 0)"

definition startDurationTracking :: "int \<Rightarrow> orchestrator \<Rightarrow> orchestrator" where
  "startDurationTracking now s = s\<lparr>startTime := Some now, durationMs := 0, durationInterval := True\<rparr>"

text \<open>The callback of the 100 ms interval.\<close>

definition duration_tick :: "int \<Rightarrow> orchestrator \<Rightarrow> orchestrator" where
  "duration_tick now s =
     (if durationInterval s \<and> truthy (startTime s) then
        notify (if withDurationUpdate s then [DurationUpdate (now - the (startTime s))] else [])
          (s\<lparr>durationMs := now - the (startTime s)\<rparr>)
      else s)"

definition stopDurationTracking :: "int \<Rightarrow> orchestrator \<Rightarrow> orchestrator" where
  "stopDurationTracking now s0 =
     (let s = s0\<lparr>endTime := Some now\<rparr>;
          s = (if truthy (startTime s) \<and> truthy (endTime s) then
                 notify (if withDurationUpdate s then [DurationUpdate (now - the (startTime s))] else [])
                   (s\<lparr>durationMs := now - the (startTime s)\<rparr>)
               else s)
      in s\<lparr>durationInterval := False\<rparr>)"

text \<open>After \<^verbatim>\<open>await currentService.start()\<close> has succeeded, in the \<^verbatim>\<open>try\<close> block or in the
  \<^verbatim>\<open>catch\<close> block: duration tracking starts and the promise of \<^verbatim>\<open>start()\<close> resolves.\<close>

definition start_resolved :: "int \<Rightarrow> orchestrator \<Rightarrow> orchestrator" where
  "start_resolved now s = notify [StartResolved] (startDurationTracking now s)"

text \<open>
  \<^verbatim>\<open>await currentService.start()\<close>: the adapter's \<^verbatim>\<open>start\<close> is called. When the promise it
  returns is settled already, the caller goes on with the outcome (as a microtask, before any
  other event: each call of the orchestrator's interface is taken to be a task of its own);
  otherwise the caller is suspended. First the \<^verbatim>\<open>await\<close> of the \<^verbatim>\<open>catch\<close> block: nothing
  catches a rejection there, and the promise of \<^verbatim>\<open>start()\<close> rejects.
\<close>

definition await_fallback_start :: "int \<Rightarrow> orchestrator \<Rightarrow> orchestrator" where
  "await_fallback_start now s =
     (case currentService s of
        None \<Rightarrow> s
      | Some i \<Rightarrow>
          (let (st, sv) = service_start (services s ! i);
               s1 = notify [AdapterStart i] (s\<lparr>services := (services s)[i := sv]\<rparr>)
           in (case st of
                 Resolved \<Rightarrow> start_resolved now s1
               | Rejected \<Rightarrow> notify [StartRejected] s1
               | Pending \<Rightarrow> s1\<lparr>awaiting := awaiting s1 @ [(i, Fallback)]\<rparr>)))"

text \<open>When the awaited promise rejects. In the \<^verbatim>\<open>try\<close> block the \<^verbatim>\<open>catch\<close> block runs: it
  logs, and either falls back to the Web Speech adapter or rethrows, as \<^verbatim>\<open>currentApi\<close> says
  at that moment. In the \<^verbatim>\<open>catch\<close> block the promise of \<^verbatim>\<open>start()\<close> rejects.\<close>

definition start_rejected :: "phase \<Rightarrow> int \<Rightarrow> orchestrator \<Rightarrow> orchestrator" where
  "start_rejected ph now s0 =
     (case ph of
        First \<Rightarrow>
          (let s = notify [LogError] s0
           in if currentApi s \<noteq> WebSpeech then
                (let s = s\<lparr>currentApi := WebSpeech\<rparr>;
                     (i, s) = createService (currentApi s) s;
                     s = s\<lparr>currentService := Some i\<rparr>;
                     s = notify (if withTranscriptionStart s then [NotifyTranscriptionStart] else []) s
                 in await_fallback_start now s)
              else notify [StartRejected] s)
      | Fallback \<Rightarrow> notify [StartRejected] s0)"

text \<open>The \<^verbatim>\<open>await\<close> of the \<^verbatim>\<open>try\<close> block.\<close>

definition await_adapter_start :: "int \<Rightarrow> orchestrator \<Rightarrow> orchestrator" where
  "await_adapter_start now s =
     (case currentService s of
        None \<Rightarrow> s
      | Some i \<Rightarrow>
          (let (st, sv) = service_start (services s ! i);
               s1 = notify [AdapterStart i] (s\<lparr>services := (services s)[i := sv]\<rparr>)
           in (case st of
                 Resolved \<Rightarrow> start_resolved now s1
               | Rejected \<Rightarrow> start_rejected First now s1
               | Pending \<Rightarrow> s1\<lparr>awaiting := awaiting s1 @ [(i, First)]\<rparr>)))"

text \<open>\<^verbatim>\<open>start()\<close> up to its first \<^verbatim>\<open>await\<close>.\<close>

definition orch_start :: "int \<Rightarrow> orchestrator \<Rightarrow> orchestrator" where
  "orch_start now s0 =
     (let s = (if currentService s0 = None then
                 (let (i, s') = createService (currentApi s0) s0 in s'\<lparr>currentService := Some i\<rparr>)
               else s0);
          s = notify (if withTranscriptionStart s then [NotifyTranscriptionStart] else []) s
      in await_adapter_start now s)"

text \<open>The event loop: the suspended \<^verbatim>\<open>start()\<close> of instance \<open>i\<close> ends with \<open>out\<close>, and the
  oldest \<^verbatim>\<open>start()\<close> of the orchestrator that awaits it goes on.\<close>

fun take_awaiting :: "nat \<Rightarrow> (nat \<times> phase) list \<Rightarrow> (phase \<times> (nat \<times> phase) list) option" where
  "take_awaiting i [] = None"
| "take_awaiting i ((j, ph) # rest) =
     (if i = j then Some (ph, rest)
      else (case take_awaiting i rest of
              None \<Rightarrow> None
            | Some (ph', rest') \<Rightarrow> Some (ph', (j, ph) # rest')))"

definition settle :: "nat \<Rightarrow> outcome \<Rightarrow> int \<Rightarrow> orchestrator \<Rightarrow> orchestrator" where
  "settle i out now s =
     (if i < length (services s) \<and> starting (services s ! i) > 0 then
        (let (st, sv) = service_settle out (services s ! i);
             s1 = s\<lparr>services := (services s)[i := sv]\<rparr>
         in (case take_awaiting i (awaiting s1) of
               None \<Rightarrow> s1
             | Some (ph, rest) \<Rightarrow>
                 (let s2 = s1\<lparr>awaiting := rest\<rparr>
                  in if st = Resolved then start_resolved now s2 else start_rejected ph now s2)))
      else s)"

definition orch_stop :: "int \<Rightarrow> orchestrator \<Rightarrow> orchestrator" where
  "orch_stop now s =
     (case currentService s of
        None \<Rightarrow> s
      | Some i \<Rightarrow>
          stopDurationTracking now
            (notify [AdapterStop i] (s\<lparr>services := (services s)[i := service_stop (services s ! i)]\<rparr>)))"

definition orch_isListening :: "orchestrator \<Rightarrow> bool" where
  "orch_isListening s = (case currentService s of None \<Rightarrow> False | Some i \<Rightarrow> listening (services s ! i))"

definition getApi :: "orchestrator \<Rightarrow> STTApi" where
  "getApi s = currentApi s"

definition getDuration :: "orchestrator \<Rightarrow> int" where
  "getDuration s = durationMs s"

definition changeApi :: "STTApi \<Rightarrow> int \<Rightarrow> orchestrator \<Rightarrow> orchestrator" where
  "changeApi a now s0 =
     (let s = (case currentService s0 of
                 None \<Rightarrow> s0
               | Some i \<Rightarrow>
                   if listening (services s0 ! i) then
                     stopDurationTracking now
                       (notify [AdapterStop i]
                          (s0\<lparr>services := (services s0)[i := service_stop (services s0 ! i)]\<rparr>))
                   else s0);
          s = s\<lparr>currentApi := a\<rparr>;
          (i, s) = createService (currentApi s) s
      in s\<lparr>currentService := Some i\<rparr>)"

definition forceFinalize :: "orchestrator \<Rightarrow> orchestrator" where
  "forceFinalize s =
     (case currentService s of
        None \<Rightarrow> s
      | Some i \<Rightarrow>
          if \<not> listening (services s ! i) then s
          else notify [AdapterStop i] (s\<lparr>services := (services s)[i := service_stop (services s ! i)]\<rparr>))"

text \<open>\<^verbatim>\<open>updateLanguage\<close>. Of the six adapters only the Whisper one has an \<^verbatim>\<open>updateLanguage\<close>
  method (which changes nothing the orchestrator observes); for the others the current adapter
  is replaced by a new one.\<close>

definition updateLanguage :: "int \<Rightarrow> orchestrator \<Rightarrow> orchestrator" where
  "updateLanguage now s0 =
     (let s = (case currentService s0 of
                 None \<Rightarrow> s0
               | Some i \<Rightarrow>
                   if listening (services s0 ! i) then
                     stopDurationTracking now
                       (notify [AdapterStop i]
                          (s0\<lparr>services := (services s0)[i := service_stop (services s0 ! i)]\<rparr>))
                   else s0)
      in (case currentService s of
            None \<Rightarrow> (let (i, s) = createService (currentApi s) s in s\<lparr>currentService := Some i\<rparr>)
          | Some i \<Rightarrow>
              if api (services s ! i) = Whisper then s
              else (let (i, s) = createService (currentApi s) s in s\<lparr>currentService := Some i\<rparr>)))"

text \<open>Events of an adapter that change what the orchestrator observes of it without a call of
  the orchestrator: the \<^verbatim>\<open>end\<close> and \<^verbatim>\<open>error\<close> events of a Web Speech recogniser with no
  suspended \<^verbatim>\<open>start()\<close>, and the \<^verbatim>\<open>error\<close> event of the transcriber of an AssemblyAI
  adapter, whose handler calls the adapter's \<^verbatim>\<open>stop\<close>.\<close>

definition recognition_end :: "nat \<Rightarrow> orchestrator \<Rightarrow> orchestrator" where
  "recognition_end i s =
     (if i < length (services s) \<and> api (services s ! i) = WebSpeech
         \<and> starting (services s ! i) = 0 then
        s\<lparr>services := (services s)[i := service_end (services s ! i)]\<rparr>
      else s)"

definition recognition_error :: "nat \<Rightarrow> orchestrator \<Rightarrow> orchestrator" where
  "recognition_error i s =
     (if i < length (services s) \<and> api (services s ! i) = WebSpeech
         \<and> starting (services s ! i) = 0 then
        s\<lparr>services := (services s)[i := service_error (services s ! i)]\<rparr>
      else s)"

definition transcriber_error :: "nat \<Rightarrow> orchestrator \<Rightarrow> orchestrator" where
  "transcriber_error i s =
     (if i < length (services s) \<and> api (services s ! i) = AssemblyAI then
        s\<lparr>services := (services s)[i := service_stop (services s ! i)]\<rparr>
      else s)"

text \<open>\<^verbatim>\<open>createSpeechRecognitionService\<close>: the Web Speech adapter is created at once.\<close>

definition createSpeechRecognitionService :: "bool \<Rightarrow> bool \<Rightarrow> orchestrator" where
  "createSpeechRecognitionService transcriptionStart durationUpdate =
     \<lparr>currentApi = WebSpeech, currentService = Some 0,
      services = [\<lparr>api = WebSpeech, listening = False, microphone = False, starting = 0\<rparr>],
      startTime = None, endTime = None, durationMs = 0, durationInterval = False,
      withTranscriptionStart = transcriptionStart, withDurationUpdate = durationUpdate,
      awaiting = [], trace = []\<rparr>"

text \<open>The calls of an adapter's \<^verbatim>\<open>start\<close> and the results of the orchestrator's \<^verbatim>\<open>start\<close>,
  read off the trace.\<close>

fun adapter_starts :: "notice list \<Rightarrow> nat list" where
  "adapter_starts [] = []"
| "adapter_starts (AdapterStart i # ns) = i # adapter_starts ns"
| "adapter_starts (n # ns) = adapter_starts ns"

fun start_results :: "notice list \<Rightarrow> status list" where
  "start_results [] = []"
| "start_results (StartResolved # ns) = Resolved # start_results ns"
| "start_results (StartRejected # ns) = Rejected # start_results ns"
| "start_results (n # ns) = start_results ns"

text \<open>The orchestrator as its caller and the event loop drive it: the calls of its interface
  (with the time of the call where the function reads the clock), the end of a suspended
  \<^verbatim>\<open>start()\<close> of an adapter, the events of the adapters, and the callback of the duration
  interval.\<close>

datatype orch_event =
    CallStart int
  | CallStop int
  | CallChangeApi STTApi int
  | CallUpdateLanguage int
  | CallForceFinalize
  | Settle nat outcome int
  | RecognitionEnd nat
  | RecognitionError nat
  | TranscriberError nat
  | Tick int

fun orch_step :: "orchestrator \<Rightarrow> orch_event \<Rightarrow> orchestrator" where
  "orch_step s (CallStart now) = orch_start now s"
| "orch_step s (CallStop now) = orch_stop now s"
| "orch_step s (CallChangeApi a now) = changeApi a now s"
| "orch_step s (CallUpdateLanguage now) = updateLanguage now s"
| "orch_step s CallForceFinalize = forceFinalize s"
| "orch_step s (Settle i out now) = settle i out now s"
| "orch_step s (RecognitionEnd i) = recognition_end i s"
| "orch_step s (RecognitionError i) = recognition_error i s"
| "orch_step s (TranscriberError i) = transcriber_error i s"
| "orch_step s (Tick now) = duration_tick now s"

definition orch_run :: "orchestrator \<Rightarrow> orch_event list \<Rightarrow> orchestrator" where
  "orch_run s evs = foldl orch_step s evs"

text \<open>The events that end a suspended \<^verbatim>\<open>start()\<close> of instance \<open>j\<close>, and the calls of
  \<^verbatim>\<open>changeApi\<close>.\<close>

fun settles :: "nat \<Rightarrow> orch_event \<Rightarrow> bool" where
  "settles j (Settle i out now) = (i = j)"
| "settles j e = False"

fun is_changeApi :: "orch_event \<Rightarrow> bool" where
  "is_changeApi (CallChangeApi a now) = True"
| "is_changeApi e = False"

text \<open>The phase of the oldest suspended \<^verbatim>\<open>start()\<close> of the orchestrator that awaits instance
  \<open>i\<close>, if there is one.\<close>

definition awaited_phase :: "nat \<Rightarrow> orchestrator \<Rightarrow> phase option" where
  "awaited_phase i s = map_option fst (take_awaiting i (awaiting s))"

text \<open>
  Two properties of states used in the proofs. In a \<open>consistent\<close> state the current instance
  exists and every instance has as many suspended \<^verbatim>\<open>start()\<close> calls as the orchestrator awaits
  of it; every state the orchestrator reaches is consistent. \<open>fallback_pending j\<close> says that
  instance \<open>j\<close> is a Web Speech adapter whose recogniser has been started by the \<^verbatim>\<open>catch\<close>
  block of \<^verbatim>\<open>start()\<close> and has not answered yet.
\<close>

definition consistent :: "orchestrator \<Rightarrow> bool" where
  "consistent s =
     ((\<forall>c. currentService s = Some c \<longrightarrow> c < length (services s))
      \<and> (\<forall>i. count_list (map fst (awaiting s)) i
               = (if i < length (services s) then starting (services s ! i) else 0)))"

definition fallback_pending :: "nat \<Rightarrow> orchestrator \<Rightarrow> bool" where
  "fallback_pending j s =
     (j < length (services s) \<and> api (services s ! j) = WebSpeech
      \<and> \<not> listening (services s ! j) \<and> microphone (services s ! j)
      \<and> 0 < starting (services s ! j) \<and> awaited_phase j s = Some Fallback)"
section \<open>The WAV encoder writes the canonical layout\<close>

lemma length_le16 [simp]: "length (le16 v) = 2"
  by (simp add: le16_def)

lemma length_le32 [simp]: "length (le32 v) = 4"
  by (simp add: le32_def)

lemma length_ascii [simp]: "length (ascii s) = length s"
  by (simp add: ascii_def)

lemma list_update_Cons_numeral: "(x # xs)[numeral k := y] = x # xs[pred_numeral k := y]"
  by (simp add: numeral_eq_Suc)

lemma replicate_44:
  "replicate 44 (0::byte) =
     [0,0,0,0,0,0,0,0,0,0,0,0,0,0,0,0,0,0,0,0,0,0,0,0,0,0,0,0,0,0,0,0,0,0,0,0,0,0,0,0,0,0,0,0]"
  by (simp add: numeral_eq_Suc)

lemmas header_defs = writeHeader_def setUint32_def setUint16_def setUint8_def

lemma writeHeader_length: "length (writeHeader v n r) = length v"
  by (simp add: header_defs)

lemma writeHeader_take: "take 44 (writeHeader v n r) = writeHeader (take 44 v) n r"
  by (simp add: header_defs take_update_swap)

lemma writeHeader_zero: "writeHeader (replicate 44 0) n r = wav_header n r"
  unfolding replicate_44
  by (simp add: header_defs wav_header_def le32_def le16_def ascii_def list_update_Cons_numeral)

lemma setInt16_length: "length (setInt16 view off y) = length view"
  by (simp add: setInt16_def setUint16_def)

lemma take_setInt16:
  "off + 2 \<le> length view \<Longrightarrow>
   take (off + 2) (setInt16 view off y) = take off view @ le16 (js_trunc y)"
  by (simp add: setInt16_def setUint16_def le16_def take_Suc_conv_app_nth
      numeral_2_eq_2 nth_list_update)

text \<open>The loop invariant: after the samples from index \<open>i\<close> on are written, the buffer is its
  first \<open>44 + 2 i\<close> bytes followed by the encoded samples.\<close>

lemma writeSamples_eq:
  "length view = 44 + (i + length xs) * 2 \<Longrightarrow>
   writeSamples xs i view = take (44 + i * 2) view @ concat (map (\<lambda>x. le16 (pcm16 x)) xs)"
proof (induction xs arbitrary: i view)
  case Nil
  then show ?case by simp
next
  case (Cons x xs)
  define y where
    "y = (let sample = max (- 1) (min 1 x) in if sample < 0 then sample * 32768 else sample * 32767)"
  define view' where "view' = setInt16 view (44 + i * 2) y"
  have t: "js_trunc y = pcm16 x"
    by (simp add: y_def pcm16_def Let_def)
  have len: "length view' = 44 + ((i + 1) + length xs) * 2"
    using Cons.prems by (simp add: view'_def setInt16_length)
  have "take ((44 + i * 2) + 2) view' = take (44 + i * 2) view @ le16 (js_trunc y)"
    unfolding view'_def using Cons.prems by (intro take_setInt16) simp
  then have tk: "take (44 + (i + 1) * 2) view' = take (44 + i * 2) view @ le16 (pcm16 x)"
    by (simp add: t add.commute add.left_commute)
  have "writeSamples (x # xs) i view = writeSamples xs (i + 1) view'"
    by (simp add: view'_def y_def Let_def)
  also have "\<dots> = take (44 + (i + 1) * 2) view' @ concat (map (\<lambda>x. le16 (pcm16 x)) xs)"
    using len by (rule Cons.IH)
  also have "\<dots> = (take (44 + i * 2) view @ le16 (pcm16 x)) @ concat (map (\<lambda>x. le16 (pcm16 x)) xs)"
    by (simp only: tk)
  finally show ?case by simp
qed

lemma float32ToWav_eq: "float32ToWav samples rate = spec_wav samples rate"
proof -
  let ?v = "writeHeader (replicate (44 + length samples * 2) 0) (length samples) rate"
  have "length ?v = 44 + (0 + length samples) * 2"
    by (simp add: writeHeader_length)
  then have "writeSamples samples 0 ?v
      = take (44 + 0 * 2) ?v @ concat (map (\<lambda>x. le16 (pcm16 x)) samples)"
    by (rule writeSamples_eq)
  moreover have "take 44 ?v = wav_header (length samples) rate"
    by (simp add: writeHeader_take writeHeader_zero)
  ultimately show ?thesis
    by (simp add: float32ToWav_def spec_wav_def)
qed

lemma pcm16_range: "- 32768 \<le> pcm16 x \<and> pcm16 x \<le> 32767"
proof -
  define c where "c = max (- 1) (min 1 x)"
  have c: "- 1 \<le> c" "c \<le> 1"
    by (simp_all add: c_def)
  show ?thesis
  proof (cases "c < 0")
    case True
    have lo: "0 \<le> - (c * 32768)" and hi: "- (c * 32768) \<le> 32768"
      using True c by simp_all
    have f0: "0 \<le> \<lfloor>- (c * 32768)\<rfloor>"
      using floor_mono[OF lo] by (simp only: floor_zero)
    have f1: "\<lfloor>- (c * 32768)\<rfloor> \<le> 32768"
      using floor_mono[OF hi] by (simp only: floor_numeral)
    have p: "pcm16 x = - \<lfloor>- (c * 32768)\<rfloor>"
      using True by (simp add: pcm16_def js_trunc_def c_def[symmetric] Let_def)
    show ?thesis unfolding p using f0 f1 by linarith
  next
    case False
    have lo: "0 \<le> c * 32767" and hi: "c * 32767 \<le> 32767"
      using False c by simp_all
    have f0: "0 \<le> \<lfloor>c * 32767\<rfloor>"
      using floor_mono[OF lo] by (simp only: floor_zero)
    have f1: "\<lfloor>c * 32767\<rfloor> \<le> 32767"
      using floor_mono[OF hi] by (simp only: floor_numeral)
    have p: "pcm16 x = \<lfloor>c * 32767\<rfloor>"
      using False by (simp add: pcm16_def js_trunc_def c_def[symmetric] Let_def)
    show ?thesis unfolding p using f0 f1 by linarith
  qed
qed

subsection \<open>Reading the fields back\<close>

lemma le32_value:
  "(v::int) mod 256 + 256 * (v div 256 mod 256) + 65536 * (v div 65536 mod 256)
     + 16777216 * (v div 16777216 mod 256) = v mod 4294967296"
proof -
  have a: "v mod (256 * 256) = 256 * (v div 256 mod 256) + v mod 256"
    by (rule zmod_zmult2_eq) simp
  have b: "v mod (65536 * 256) = 65536 * (v div 65536 mod 256) + v mod 65536"
    by (rule zmod_zmult2_eq) simp
  have c: "v mod (16777216 * 256) = 16777216 * (v div 16777216 mod 256) + v mod 16777216"
    by (rule zmod_zmult2_eq) simp
  from a b c show ?thesis by simp
qed

lemma le16_value: "(v::int) mod 256 + 256 * (v div 256 mod 256) = v mod 65536"
proof -
  have "v mod (256 * 256) = 256 * (v div 256 mod 256) + v mod 256"
    by (rule zmod_zmult2_eq) simp
  then show ?thesis by simp
qed

lemma getUint32_le32:
  "length pre = off \<Longrightarrow> getUint32 (pre @ le32 v @ post) off = v mod 4294967296"
  unfolding getUint32_def le32_value[symmetric]
  by (simp add: nth_append le32_def uint_word_of_int)

lemma getUint16_le16:
  "length pre = off \<Longrightarrow> getUint16 (pre @ le16 v @ post) off = v mod 65536"
  unfolding getUint16_def le16_value[symmetric]
  by (simp add: nth_append le16_def uint_word_of_int)

lemma readString_ascii:
  "length pre = off \<Longrightarrow> length s = n \<Longrightarrow> readString (pre @ ascii s @ post) off n = s"
  by (simp add: readString_def ascii_def list_eq_iff_nth_eq uint_word_of_int)

lemma getInt16_le16:
  assumes "length pre = off" "- 32768 \<le> v" "v \<le> 32767"
  shows "getInt16 (pre @ le16 v @ post) off = v"
proof -
  have u: "getUint16 (pre @ le16 v @ post) off = v mod 65536"
    using assms(1) by (rule getUint16_le16)
  show ?thesis
  proof (cases "v < 0")
    case True
    have "(v + 65536) mod 65536 = v + 65536"
      using True assms(2) by (intro mod_pos_pos_trivial) simp_all
    then have "v mod 65536 = v + 65536" by simp
    then show ?thesis using True assms(2) by (simp add: getInt16_def u)
  next
    case False
    then have "v mod 65536 = v" using assms(3) by simp
    then show ?thesis using False assms(3) by (simp add: getInt16_def u)
  qed
qed


lemma length_pcm_payload [simp]: "length (concat (map (\<lambda>x. le16 (f x)) xs)) = 2 * length xs"
  by (induction xs) simp_all

lemma length_wav_header [simp]: "length (wav_header n r) = 44"
  by (simp add: wav_header_def)

lemma spec_wav_length: "length (spec_wav samples r) = 44 + 2 * length samples"
  by (simp add: spec_wav_def)

lemma wav_RIFF: "readString (spec_wav samples r) 0 4 = ''RIFF''"
  unfolding spec_wav_def wav_header_def
  using readString_ascii[of "[]" 0 "''RIFF''" 4] by simp

lemma wav_file_length:
  "getUint32 (spec_wav samples r) 4 = (36 + int (length samples) * 2) mod 4294967296"
  unfolding spec_wav_def wav_header_def
  using getUint32_le32[of "ascii ''RIFF''" 4] by simp

lemma wav_WAVE: "readString (spec_wav samples r) 8 4 = ''WAVE''"
  unfolding spec_wav_def wav_header_def
  using readString_ascii[of "ascii ''RIFF'' @ le32 (36 + int (length samples) * 2)" 8 "''WAVE''" 4]
  by simp

lemma wav_fmt: "readString (spec_wav samples r) 12 4 = ''fmt ''"
  unfolding spec_wav_def wav_header_def
  using readString_ascii[of "ascii ''RIFF'' @ le32 (36 + int (length samples) * 2) @ ascii ''WAVE''"
      12 "''fmt ''" 4]
  by simp

lemma wav_fmt_length: "getUint32 (spec_wav samples r) 16 = 16"
  unfolding spec_wav_def wav_header_def
  using getUint32_le32[of "ascii ''RIFF'' @ le32 (36 + int (length samples) * 2) @ ascii ''WAVE''
      @ ascii ''fmt ''" 16 16]
  by simp

lemma wav_format_tag: "getUint16 (spec_wav samples r) 20 = 1"
  unfolding spec_wav_def wav_header_def
  using getUint16_le16[of "ascii ''RIFF'' @ le32 (36 + int (length samples) * 2) @ ascii ''WAVE''
      @ ascii ''fmt '' @ le32 16" 20 1]
  by simp

lemma wav_channels: "getUint16 (spec_wav samples r) 22 = 1"
  unfolding spec_wav_def wav_header_def
  using getUint16_le16[of "ascii ''RIFF'' @ le32 (36 + int (length samples) * 2) @ ascii ''WAVE''
      @ ascii ''fmt '' @ le32 16 @ le16 1" 22 1]
  by simp

lemma wav_sample_rate: "getUint32 (spec_wav samples r) 24 = r mod 4294967296"
  unfolding spec_wav_def wav_header_def
  using getUint32_le32[of "ascii ''RIFF'' @ le32 (36 + int (length samples) * 2) @ ascii ''WAVE''
      @ ascii ''fmt '' @ le32 16 @ le16 1 @ le16 1" 24 r]
  by simp

lemma wav_byte_rate: "getUint32 (spec_wav samples r) 28 = (r * 2) mod 4294967296"
  unfolding spec_wav_def wav_header_def
  using getUint32_le32[of "ascii ''RIFF'' @ le32 (36 + int (length samples) * 2) @ ascii ''WAVE''
      @ ascii ''fmt '' @ le32 16 @ le16 1 @ le16 1 @ le32 r" 28 "r * 2"]
  by simp

lemma wav_block_align: "getUint16 (spec_wav samples r) 32 = 2"
  unfolding spec_wav_def wav_header_def
  using getUint16_le16[of "ascii ''RIFF'' @ le32 (36 + int (length samples) * 2) @ ascii ''WAVE''
      @ ascii ''fmt '' @ le32 16 @ le16 1 @ le16 1 @ le32 r @ le32 (r * 2)" 32 2]
  by simp

lemma wav_bits: "getUint16 (spec_wav samples r) 34 = 16"
  unfolding spec_wav_def wav_header_def
  using getUint16_le16[of "ascii ''RIFF'' @ le32 (36 + int (length samples) * 2) @ ascii ''WAVE''
      @ ascii ''fmt '' @ le32 16 @ le16 1 @ le16 1 @ le32 r @ le32 (r * 2) @ le16 2" 34 16]
  by simp

lemma wav_data: "readString (spec_wav samples r) 36 4 = ''data''"
  unfolding spec_wav_def wav_header_def
  using readString_ascii[of "ascii ''RIFF'' @ le32 (36 + int (length samples) * 2) @ ascii ''WAVE''
      @ ascii ''fmt '' @ le32 16 @ le16 1 @ le16 1 @ le32 r @ le32 (r * 2) @ le16 2 @ le16 16"
      36 "''data''" 4]
  by simp

lemma wav_data_length:
  "getUint32 (spec_wav samples r) 40 = (int (length samples) * 2) mod 4294967296"
  unfolding spec_wav_def wav_header_def
  using getUint32_le32[of "ascii ''RIFF'' @ le32 (36 + int (length samples) * 2) @ ascii ''WAVE''
      @ ascii ''fmt '' @ le32 16 @ le16 1 @ le16 1 @ le32 r @ le32 (r * 2) @ le16 2 @ le16 16
      @ ascii ''data''" 40 "int (length samples) * 2" "concat (map (\<lambda>x. le16 (pcm16 x)) samples)"]
  by simp

lemma wav_payload:
  assumes "i < length samples"
  shows "getInt16 (spec_wav samples r) (44 + 2 * i) = pcm16 (samples ! i)"
proof -
  let ?enc = "\<lambda>xs. concat (map (\<lambda>x. le16 (pcm16 x)) xs)"
  have "samples = take i samples @ samples ! i # drop (Suc i) samples"
    using assms by (rule id_take_nth_drop)
  then have "?enc samples = ?enc (take i samples) @ le16 (pcm16 (samples ! i)) @ ?enc (drop (Suc i) samples)"
    by (metis (no_types, lifting) concat.simps(2) concat_append list.simps(9) map_append)
  then have "spec_wav samples r = (wav_header (length samples) r @ ?enc (take i samples))
      @ le16 (pcm16 (samples ! i)) @ ?enc (drop (Suc i) samples)"
    by (simp add: spec_wav_def)
  moreover have "length (wav_header (length samples) r @ ?enc (take i samples)) = 44 + 2 * i"
    using assms by simp
  ultimately show ?thesis
    using getInt16_le16[of "wav_header (length samples) r @ ?enc (take i samples)" "44 + 2 * i"
        "pcm16 (samples ! i)" "?enc (drop (Suc i) samples)"] pcm16_range[of "samples ! i"]
    by simp
qed

text \<open>
  Claim C4. For every sample sequence of length \<open>N\<close> and every sample rate \<open>rate\<close>,
  \<^verbatim>\<open>float32ToWav\<close> returns exactly \<open>44 + 2 N\<close> bytes. The header holds \<open>RIFF\<close> at offset 0,
  \<open>WAVE\<close> at 8, \<open>fmt \<close> at 12, the format-chunk length 16, the PCM tag 1, the channel count
  1, the block align 2, 16 bits per sample and \<open>data\<close> at 36. The four fields that depend on the
  input are 32-bit little-endian fields: they hold \<open>36 + 2 N\<close>, the sample rate, twice the
  sample rate and \<open>2 N\<close> whenever these fit, that is, whenever the sample rate is not negative,
  twice the sample rate is below \<open>2^32\<close> and \<open>36 + 2 N\<close> is below \<open>2^32\<close> (in general they hold
  the values modulo \<open>2^32\<close>). Every rate the encoder receives fits: it is the rate of an
  adapter whose audio context has been created (lemmas \<open>accepted_rate_fits\<close>,
  \<open>nano_unaccepted_run\<close> and \<open>whisper_unaccepted_run\<close> below). The
  payload, read back as signed 16-bit little-endian integers, is \<^const>\<open>pcm16\<close> of each sample:
  the sample clamped to \<open>[-1, 1]\<close>, scaled by 32768 when negative and by 32767 otherwise, and
  truncated towards zero. The encoder is a function of its two arguments alone.
\<close>

theorem float32ToWav_layout:
  "length (float32ToWav samples rate) = 44 + 2 * length samples
   \<and> readString (float32ToWav samples rate) 0 4 = ''RIFF''
   \<and> getUint32 (float32ToWav samples rate) 4 = (36 + 2 * int (length samples)) mod 2 ^ 32
   \<and> readString (float32ToWav samples rate) 8 4 = ''WAVE''
   \<and> readString (float32ToWav samples rate) 12 4 = ''fmt ''
   \<and> getUint32 (float32ToWav samples rate) 16 = 16
   \<and> getUint16 (float32ToWav samples rate) 20 = 1
   \<and> getUint16 (float32ToWav samples rate) 22 = 1
   \<and> getUint32 (float32ToWav samples rate) 24 = rate mod 2 ^ 32
   \<and> getUint32 (float32ToWav samples rate) 28 = (rate * 2) mod 2 ^ 32
   \<and> getUint16 (float32ToWav samples rate) 32 = 2
   \<and> getUint16 (float32ToWav samples rate) 34 = 16
   \<and> readString (float32ToWav samples rate) 36 4 = ''data''
   \<and> getUint32 (float32ToWav samples rate) 40 = (2 * int (length samples)) mod 2 ^ 32
   \<and> map (\<lambda>i. getInt16 (float32ToWav samples rate) (44 + 2 * i)) [0 ..< length samples]
       = map pcm16 samples
   \<and> (0 \<le> rate \<and> rate * 2 < 2 ^ 32 \<and> 36 + 2 * int (length samples) < 2 ^ 32 \<longrightarrow>
        getUint32 (float32ToWav samples rate) 4 = 36 + 2 * int (length samples)
      \<and> getUint32 (float32ToWav samples rate) 24 = rate
      \<and> getUint32 (float32ToWav samples rate) 28 = rate * 2
      \<and> getUint32 (float32ToWav samples rate) 40 = 2 * int (length samples))"
proof -
  have payload: "map (\<lambda>i. getInt16 (spec_wav samples rate) (44 + 2 * i)) [0 ..< length samples]
       = map pcm16 samples"
  proof (rule nth_equalityI)
    show "length (map (\<lambda>i. getInt16 (spec_wav samples rate) (44 + 2 * i)) [0 ..< length samples])
        = length (map pcm16 samples)"
      by simp
  next
    fix i
    assume "i < length (map (\<lambda>i. getInt16 (spec_wav samples rate) (44 + 2 * i)) [0 ..< length samples])"
    then have "i < length samples" by simp
    then show "map (\<lambda>i. getInt16 (spec_wav samples rate) (44 + 2 * i)) [0 ..< length samples] ! i
        = map pcm16 samples ! i"
      by (simp add: wav_payload)
  qed
  have m4: "getUint32 (spec_wav samples rate) 4 = (36 + 2 * int (length samples)) mod 2 ^ 32"
    by (simp add: wav_file_length mult.commute)
  have m24: "getUint32 (spec_wav samples rate) 24 = rate mod 2 ^ 32"
    by (simp add: wav_sample_rate)
  have m28: "getUint32 (spec_wav samples rate) 28 = (rate * 2) mod 2 ^ 32"
    by (simp add: wav_byte_rate)
  have m40: "getUint32 (spec_wav samples rate) 40 = (2 * int (length samples)) mod 2 ^ 32"
    by (simp add: wav_data_length mult.commute)
  have exact: "getUint32 (spec_wav samples rate) 4 = 36 + 2 * int (length samples)
      \<and> getUint32 (spec_wav samples rate) 24 = rate
      \<and> getUint32 (spec_wav samples rate) 28 = rate * 2
      \<and> getUint32 (spec_wav samples rate) 40 = 2 * int (length samples)"
    if "0 \<le> rate" "rate * 2 < 2 ^ 32" "36 + 2 * int (length samples) < 2 ^ 32"
    unfolding m4 m24 m28 m40 using that by simp
  show ?thesis
    unfolding float32ToWav_eq
    using payload m4 m24 m28 m40 exact
    by (simp only: spec_wav_length wav_RIFF wav_WAVE wav_fmt wav_fmt_length wav_format_tag
        wav_channels wav_block_align wav_bits wav_data simp_thms) blast
qed

theorem float32ToWav_layout_witness:
  "length (float32ToWav [1 / 2, - 2, 3, - 1 / 4] 16000) = 52
   \<and> getUint32 (float32ToWav [1 / 2, - 2, 3, - 1 / 4] 16000) 4 = 44
   \<and> getUint32 (float32ToWav [1 / 2, - 2, 3, - 1 / 4] 16000) 24 = 16000
   \<and> getUint32 (float32ToWav [1 / 2, - 2, 3, - 1 / 4] 16000) 28 = 32000
   \<and> getUint32 (float32ToWav [1 / 2, - 2, 3, - 1 / 4] 16000) 40 = 8
   \<and> getInt16 (float32ToWav [1 / 2, - 2, 3, - 1 / 4] 16000) 44 = 16383
   \<and> getInt16 (float32ToWav [1 / 2, - 2, 3, - 1 / 4] 16000) 46 = - 32768
   \<and> getInt16 (float32ToWav [1 / 2, - 2, 3, - 1 / 4] 16000) 48 = 32767
   \<and> getInt16 (float32ToWav [1 / 2, - 2, 3, - 1 / 4] 16000) 50 = - 8192"
  using float32ToWav_layout [of "[1 / 2, - 2, 3, - 1 / 4]" 16000]
  by (simp add: pcm16_def js_trunc_def)

text \<open>A rate for which \<^verbatim>\<open>new AudioContext({sampleRate})\<close> does not throw fits the fields.\<close>

lemma accepted_rate_fits:
  "audio_context_accepts rate \<Longrightarrow>
   0 \<le> rate \<and> rate * 2 < 2 ^ 32
   \<and> getUint32 (float32ToWav samples rate) 24 = rate
   \<and> getUint32 (float32ToWav samples rate) 28 = rate * 2"
  by (simp add: audio_context_accepts_def float32ToWav_eq wav_sample_rate wav_byte_rate)

section \<open>Rounding to a double\<close>

lemma rne_error: "\<bar>of_int (rne t) - t\<bar> \<le> 1 / 2"
  unfolding rne_def Let_def by (auto simp: abs_le_iff; linarith)

lemma rne_of_int [simp]: "rne (of_int k) = k"
  by (simp add: rne_def)

lemma rne_ge: "of_int N \<le> t \<Longrightarrow> N \<le> rne t"
  unfolding rne_def Let_def by (auto simp: le_floor_iff; linarith)

lemma floor_log_bounds:
  assumes "0 < x"
  shows "2 powr of_int \<lfloor>log 2 x\<rfloor> \<le> x" "x < 2 powr (of_int \<lfloor>log 2 x\<rfloor> + 1)"
proof -
  have "of_int \<lfloor>log 2 x\<rfloor> \<le> log 2 x" by simp
  then have "2 powr of_int \<lfloor>log 2 x\<rfloor> \<le> 2 powr log 2 x" by (simp only: powr_le_cancel_iff)
  then show "2 powr of_int \<lfloor>log 2 x\<rfloor> \<le> x" using assms by simp
  have "log 2 x < of_int \<lfloor>log 2 x\<rfloor> + 1" by linarith
  then have "2 powr log 2 x < 2 powr (of_int \<lfloor>log 2 x\<rfloor> + 1)" by simp
  then show "x < 2 powr (of_int \<lfloor>log 2 x\<rfloor> + 1)" using assms by simp
qed

lemma fl_zero [simp]: "fl 0 = 0"
  by (simp add: fl_def)

text \<open>Rounding a number in the normal range has a relative error of at most the unit
  roundoff.\<close>

lemma fl_rel:
  assumes "2 powr (- 1022) \<le> \<bar>x\<bar>"
  shows "\<bar>fl x - x\<bar> \<le> unit_roundoff * \<bar>x\<bar>"
proof -
  have pos: "0 < \<bar>x\<bar>" using assms by (smt (verit) powr_gt_zero)
  then have nz: "x \<noteq> 0" by simp
  define e0 where "e0 = \<lfloor>log 2 \<bar>x\<bar>\<rfloor>"
  have "log 2 (2 powr (- 1022)) \<le> log 2 \<bar>x\<bar>"
    using assms pos by (subst log_le_cancel_iff) simp_all
  then have "- 1022 \<le> log 2 \<bar>x\<bar>" by simp
  then have e0: "- 1022 \<le> e0" unfolding e0_def by (simp add: le_floor_iff)
  define q :: real where "q = 2 powr (of_int e0 - 52)"
  have q: "0 < q" by (simp add: q_def)
  have mx: "max \<lfloor>log 2 \<bar>x\<bar>\<rfloor> (- 1022) = e0"
    using e0 by (simp add: e0_def)
  have flx: "fl x = q * of_int (rne (x / q))"
    unfolding fl_def Let_def mx q_def using nz by simp
  have "fl x - x = q * (of_int (rne (x / q)) - x / q)"
    using q by (simp add: flx algebra_simps)
  then have "\<bar>fl x - x\<bar> = q * \<bar>of_int (rne (x / q)) - x / q\<bar>"
    using q by (simp add: abs_mult)
  also have "\<dots> \<le> q * (1 / 2)"
    using rne_error [of "x / q"] q by (intro mult_left_mono) simp_all
  also have "q * (1 / 2) = unit_roundoff * 2 powr of_int e0"
  proof -
    have "(2::real) powr (of_int e0 - 52) = 2 powr of_int e0 * 2 powr (- 52)"
      by (simp add: powr_add [symmetric])
    moreover have "(2::real) powr (- 52) = 1 / 2 ^ 52"
      by (simp add: powr_minus_divide powr_numeral)
    ultimately show ?thesis by (simp add: q_def unit_roundoff_def)
  qed
  also have "\<dots> \<le> unit_roundoff * \<bar>x\<bar>"
    using floor_log_bounds(1) [OF pos] by (intro mult_left_mono) (simp_all add: e0_def unit_roundoff_def)
  finally show ?thesis .
qed

text \<open>Rounding does not cross a power of two.\<close>

lemma fl_ge_pow2:
  assumes "2 powr of_int j \<le> x" and "- 1022 \<le> j"
  shows "2 powr of_int j \<le> fl x"
proof -
  have pos: "0 < x" using assms(1) by (smt (verit) powr_gt_zero)
  define e0 where "e0 = \<lfloor>log 2 \<bar>x\<bar>\<rfloor>"
  have "log 2 (2 powr of_int j) \<le> log 2 x"
    using assms pos by (subst log_le_cancel_iff) simp_all
  then have "of_int j \<le> log 2 x" by simp
  then have je: "j \<le> e0" using pos unfolding e0_def by (simp add: le_floor_iff)
  then have e0: "- 1022 \<le> e0" using assms(2) by simp
  define q :: real where "q = 2 powr (of_int e0 - 52)"
  have q: "0 < q" by (simp add: q_def)
  have mx: "max \<lfloor>log 2 \<bar>x\<bar>\<rfloor> (- 1022) = e0"
    using e0 by (simp add: e0_def)
  have flx: "fl x = q * of_int (rne (x / q))"
    unfolding fl_def Let_def mx q_def using pos by simp
  have lo: "2 powr of_int e0 \<le> x"
    using floor_log_bounds(1) [of x] pos by (simp add: e0_def)
  have split: "(2::real) powr of_int e0 = q * 2 ^ 52"
  proof -
    have "q * 2 powr 52 = 2 powr of_int e0"
      unfolding q_def by (simp only: powr_add [symmetric]) simp
    moreover have "(2::real) powr 52 = 2 ^ 52" by (simp add: powr_numeral)
    ultimately show ?thesis by simp
  qed
  have "(2::real) ^ 52 \<le> x / q"
    using lo q by (simp add: split pos_le_divide_eq mult.commute)
  then have "of_int (2 ^ 52) \<le> x / q" by simp
  then have "2 ^ 52 \<le> rne (x / q)" by (rule rne_ge)
  then have "(2::real) ^ 52 \<le> of_int (rne (x / q))"
    by (metis of_int_le_iff of_int_numeral of_int_power)
  then have "q * 2 ^ 52 \<le> fl x"
    using q by (simp add: flx)
  moreover have "(2::real) powr of_int j \<le> 2 powr of_int e0"
    using je by simp
  ultimately show ?thesis using split by linarith
qed

text \<open>A double is rounded to itself.\<close>

lemma fl_exact:
  assumes "is_double x"
  shows "fl x = x"
proof (cases "x = 0")
  case True then show ?thesis by simp
next
  case False
  from assms obtain m k where x: "x = of_int m * 2 powr of_int k"
    and m: "\<bar>m\<bar> < 2 ^ 53" and k: "- 1074 \<le> k"
    unfolding is_double_def by blast
  have pos: "0 < \<bar>x\<bar>" using False by simp
  define e0 where "e0 = \<lfloor>log 2 \<bar>x\<bar>\<rfloor>"
  define e where "e = max e0 (- 1022)"
  have absx: "\<bar>x\<bar> = of_int \<bar>m\<bar> * 2 powr of_int k"
    by (simp add: x abs_mult)
  have "of_int \<bar>m\<bar> < (2::real) ^ 53"
    using m by (metis of_int_less_iff of_int_numeral of_int_power)
  then have "\<bar>x\<bar> < 2 ^ 53 * 2 powr of_int k"
    unfolding absx by (intro mult_strict_right_mono) simp_all
  also have "\<dots> = 2 powr (53 + of_int k)"
    by (simp add: powr_add powr_numeral)
  finally have "\<bar>x\<bar> < 2 powr (53 + of_int k)" .
  moreover have "2 powr of_int e0 \<le> \<bar>x\<bar>"
    using floor_log_bounds(1) [OF pos] by (simp add: e0_def)
  ultimately have "(2::real) powr of_int e0 < 2 powr (53 + of_int k)" by linarith
  then have "of_int e0 < (53::real) + of_int k" by simp
  then have "e0 < 53 + k" by linarith
  then have ek: "e - 52 \<le> k" using k by (simp add: e_def)
  define d where "d = nat (k - (e - 52))"
  have kd: "(of_int k :: real) = (of_int e - 52) + real d"
    using ek by (simp add: d_def)
  define q :: real where "q = 2 powr (of_int e - 52)"
  have q: "0 < q" by (simp add: q_def)
  have pk: "(2::real) powr of_int k = q * 2 ^ d"
    unfolding kd q_def by (simp add: powr_add powr_realpow)
  have flx: "fl x = q * of_int (rne (x / q))"
    unfolding fl_def Let_def q_def e_def e0_def using False by simp
  have "x / q = of_int (m * 2 ^ d)"
    using q by (simp add: x pk)
  then have "rne (x / q) = m * 2 ^ d" by (simp only: rne_of_int)
  then have "fl x = q * of_int (m * 2 ^ d)" by (simp add: flx)
  also have "\<dots> = x" by (simp add: x pk)
  finally show ?thesis .
qed

lemma unit_roundoff_bounds: "0 < unit_roundoff" "unit_roundoff < 1"
  by (simp_all add: unit_roundoff_def)

lemma fl_bounds:
  assumes "2 powr (- 1022) \<le> x"
  shows "x * (1 - unit_roundoff) \<le> fl x" "fl x \<le> x * (1 + unit_roundoff)"
proof -
  have pos: "0 < x" using assms by (smt (verit) powr_gt_zero)
  have "\<bar>fl x - x\<bar> \<le> unit_roundoff * x"
    using fl_rel [of x] assms pos by simp
  then show "x * (1 - unit_roundoff) \<le> fl x" "fl x \<le> x * (1 + unit_roundoff)"
    by (simp_all add: abs_le_iff algebra_simps)
qed

text \<open>A value of the normal range is rounded on the grid of its exponent.\<close>

lemma fl_normal:
  assumes "2 powr of_int e \<le> \<bar>x\<bar>" "\<bar>x\<bar> < 2 powr (of_int e + 1)" "- 1022 \<le> e"
  shows "fl x = 2 powr (of_int e - 52) * of_int (rne (x / 2 powr (of_int e - 52)))"
proof -
  have pos: "0 < \<bar>x\<bar>" using assms(1) by (smt (verit) powr_gt_zero)
  have "of_int e \<le> log 2 \<bar>x\<bar>" using assms(1) pos by (simp add: powr_le_iff)
  moreover have "log 2 \<bar>x\<bar> < of_int e + 1" using assms(2) pos by (simp add: less_powr_iff)
  ultimately have "\<lfloor>log 2 \<bar>x\<bar>\<rfloor> = e" by (intro floor_unique) simp_all
  then have mx: "max \<lfloor>log 2 \<bar>x\<bar>\<rfloor> (- 1022) = e" using assms(3) by simp
  show ?thesis unfolding fl_def Let_def mx using pos by simp
qed

lemma pow2_neg: "(2::real) powr (- real n) = 1 / 2 ^ n"
  by (simp add: powr_minus_divide powr_realpow)

text \<open>The doubles that the decimal literals \<^verbatim>\<open>0.01\<close>, \<^verbatim>\<open>0.005\<close> and \<^verbatim>\<open>0.015\<close> denote: the
  first two lie above the decimal value, the third below.\<close>

lemma fl_thresholds:
  "fl (1 / 100) = 5764607523034235 / 2 ^ 59"
  "fl (5 / 1000) = 5764607523034235 / 2 ^ 60"
  "fl (15 / 1000) = 1080863910568919 / 2 ^ 56"
proof -
  have p: "(2::real) powr (- 7) = 1 / 2 ^ 7" "(2::real) powr (- 6) = 1 / 2 ^ 6"
    "(2::real) powr (- 8) = 1 / 2 ^ 8" "(2::real) powr (- 59) = 1 / 2 ^ 59"
    "(2::real) powr (- 60) = 1 / 2 ^ 60" "(2::real) powr (- 58) = 1 / 2 ^ 58"
    using pow2_neg [of 7] pow2_neg [of 6] pow2_neg [of 8] pow2_neg [of 59] pow2_neg [of 60]
      pow2_neg [of 58] by simp_all
  show "fl (1 / 100) = 5764607523034235 / 2 ^ 59"
    using fl_normal [of "- 7" "1 / 100"] by (simp add: p rne_def Let_def)
  show "fl (5 / 1000) = 5764607523034235 / 2 ^ 60"
    using fl_normal [of "- 8" "5 / 1000"] by (simp add: p rne_def Let_def)
  show "fl (15 / 1000) = 1080863910568919 / 2 ^ 56"
    using fl_normal [of "- 7" "15 / 1000"] by (simp add: p rne_def Let_def)
qed

lemma fl_thresholds_reduced:
  "fl (1 / 200) = 5764607523034235 / 2 ^ 60"
  "fl (3 / 200) = 1080863910568919 / 2 ^ 56"
  using fl_thresholds(2,3) by simp_all

lemmas threshold_values = fl_thresholds fl_thresholds_reduced

lemma is_double_int_pow2:
  assumes "\<bar>m\<bar> < 2 ^ 53" "k \<le> 1074"
  shows "is_double (of_int m / 2 ^ k)"
proof -
  have "(2::real) powr of_int (- int k) = 1 / 2 ^ k"
    by (simp add: powr_minus_divide powr_realpow)
  then have "(of_int m :: real) / 2 ^ k = of_int m * 2 powr of_int (- int k)" by simp
  moreover have "- 1074 \<le> - int k" using assms(2) by simp
  ultimately show ?thesis unfolding is_double_def using assms(1) by blast
qed

lemma float32_int_pow2:
  assumes "\<bar>m\<bar> < 2 ^ 24" "k \<le> 149"
  shows "float32 (of_int m / 2 ^ k)"
proof -
  have "(2::real) powr of_int (- int k) = 1 / 2 ^ k"
    by (simp add: powr_minus_divide powr_realpow)
  then have "(of_int m :: real) / 2 ^ k = of_int m * 2 powr of_int (- int k)" by simp
  moreover have "- 149 \<le> - int k" "- int k \<le> 104" using assms(2) by simp_all
  ultimately show ?thesis unfolding float32_def using assms(1) by blast
qed

lemma float32_values: "float32 0" "float32 (1 / 2)"
  using float32_int_pow2 [of 0 0] float32_int_pow2 [of 1 1] by simp_all

lemma fl_nat_pow2:
  assumes "n < 2 ^ 53" "k \<le> 1074"
  shows "fl (real n / 2 ^ k) = real n / 2 ^ k"
proof -
  have "\<bar>int n\<bar> < 2 ^ 53" using assms(1) by (simp add: of_nat_less_numeral_power_cancel_iff)
  from fl_exact [OF is_double_int_pow2 [OF this assms(2)]] show ?thesis by simp
qed

lemma fl_simple [simp]: "fl (1 / 2) = 1 / 2" "fl (1 / 4) = 1 / 4" "fl (1 / 16) = 1 / 16"
  "fl (1 / 128) = 1 / 128" "fl (1 / 256) = 1 / 256" "fl 16 = 16" "fl 32 = 32"
  using fl_nat_pow2 [of 1 1] fl_nat_pow2 [of 1 2] fl_nat_pow2 [of 1 4] fl_nat_pow2 [of 1 7]
    fl_nat_pow2 [of 1 8] fl_nat_pow2 [of 16 0] fl_nat_pow2 [of 32 0]
  by simp_all

section \<open>The volume of a frame\<close>

text \<open>The square of a \<^verbatim>\<open>Float32Array\<close> element is a double (the product is exact), and it is
  zero or at least \<open>2 powr (-298)\<close>.\<close>

lemma float32_square:
  assumes "float32 x"
  shows "is_double (x * x)" "x * x = 0 \<or> 2 powr (- 298) \<le> x * x"
proof -
  from assms obtain m e where x: "x = of_int m * 2 powr of_int e"
    and m: "\<bar>m\<bar> < 2 ^ 24" and e: "- 149 \<le> e" "e \<le> 104"
    unfolding float32_def by blast
  have xx: "x * x = of_int (m * m) * 2 powr of_int (2 * e)"
    by (simp add: x powr_add [symmetric])
  have "\<bar>m\<bar> * \<bar>m\<bar> < 2 ^ 24 * 2 ^ 24"
    using m by (intro mult_strict_mono) simp_all
  then have "\<bar>m * m\<bar> < 2 ^ 53" by (simp add: abs_mult)
  moreover have "- 1074 \<le> 2 * e" using e by simp
  ultimately show "is_double (x * x)"
    unfolding is_double_def using xx by blast
  show "x * x = 0 \<or> 2 powr (- 298) \<le> x * x"
  proof (cases "m = 0")
    case True then show ?thesis by (simp add: x)
  next
    case False
    then have "1 \<le> m * m" by (smt (verit) mult_less_0_iff mult_eq_0_iff)
    then have "(1::real) \<le> of_int (m * m)" by (metis of_int_1_le_iff)
    then have "1 * 2 powr of_int (2 * e) \<le> x * x"
      unfolding xx by (intro mult_right_mono) simp_all
    then have A: "2 powr of_int (2 * e) \<le> x * x" by (simp only: mult_1)
    have B: "(2::real) powr (- 298) \<le> 2 powr of_int (2 * e)"
      using e by simp
    from order_trans [OF B A] show ?thesis by (rule disjI2)
  qed
qed

lemma float32_abs:
  assumes "float32 x"
  shows "\<bar>x\<bar> = 0 \<or> 2 powr (- 298) \<le> \<bar>x\<bar>"
proof -
  from assms obtain m e where x: "x = of_int m * 2 powr of_int e"
    and m: "\<bar>m\<bar> < 2 ^ 24" and e: "- 149 \<le> e" "e \<le> 104"
    unfolding float32_def by blast
  show ?thesis
  proof (cases "m = 0")
    case True then show ?thesis by (simp add: x)
  next
    case False
    then have "1 \<le> \<bar>m\<bar>" by simp
    then have "(1::real) \<le> of_int \<bar>m\<bar>" by (metis of_int_1_le_iff)
    then have "1 * (2::real) powr of_int e \<le> of_int \<bar>m\<bar> * 2 powr of_int e"
      by (intro mult_right_mono) simp_all
    then have A: "2 powr of_int e \<le> \<bar>x\<bar>" by (simp add: x abs_mult)
    have B: "(2::real) powr (- 298) \<le> 2 powr of_int e"
      using e by simp
    from order_trans [OF B A] show ?thesis by (rule disjI2)
  qed
qed

lemma foldl_fl_squares:
  assumes "\<forall>x\<in>set xs. float32 x"
  shows "foldl (\<lambda>sum x. fl (sum + fl (x * x))) a xs = foldl (\<lambda>sum x. fl (sum + x * x)) a xs"
  using assms by (induction xs arbitrary: a) (simp_all add: fl_exact float32_square(1))

text \<open>The error of a sum accumulated from the left: every addition rounds once.\<close>

lemma fl_sum_step:
  fixes S F a lo hi F' :: real
  assumes a: "0 \<le> a" and lo: "0 \<le> lo" "lo \<le> 1" and hi: "1 \<le> hi"
    and F: "S * lo \<le> F" "F \<le> S * hi"
    and F': "(F + a) * (1 - unit_roundoff) \<le> F'" "F' \<le> (F + a) * (1 + unit_roundoff)"
  shows "(S + a) * (lo * (1 - unit_roundoff)) \<le> F'" "F' \<le> (S + a) * (hi * (1 + unit_roundoff))"
proof -
  have "a * lo \<le> a" using a lo by (simp add: mult_left_le)
  then have "(S + a) * lo \<le> F + a" using F(1) by (simp add: algebra_simps)
  then have "(S + a) * lo * (1 - unit_roundoff) \<le> (F + a) * (1 - unit_roundoff)"
    using unit_roundoff_bounds by (intro mult_right_mono) simp_all
  then show "(S + a) * (lo * (1 - unit_roundoff)) \<le> F'"
    using F'(1) by (simp add: mult.assoc)
  have "a \<le> a * hi" using a hi by (simp add: mult_le_cancel_left1)
  then have "F + a \<le> (S + a) * hi" using F(2) by (simp add: algebra_simps)
  then have "(F + a) * (1 + unit_roundoff) \<le> (S + a) * hi * (1 + unit_roundoff)"
    using unit_roundoff_bounds by (intro mult_right_mono) simp_all
  then show "F' \<le> (S + a) * (hi * (1 + unit_roundoff))"
    using F'(2) by (simp add: mult.assoc)
qed

lemma fl_sum_bound:
  fixes g :: "'a \<Rightarrow> real"
  assumes "\<forall>x\<in>set xs. g x = 0 \<or> 2 powr (- 298) \<le> g x"
  shows "(foldl (\<lambda>s x. fl (s + g x)) 0 xs = 0 \<and> sum_list (map g xs) = 0)
       \<or> (2 powr (- 298) \<le> foldl (\<lambda>s x. fl (s + g x)) 0 xs
          \<and> sum_list (map g xs) * (1 - unit_roundoff) ^ length xs \<le> foldl (\<lambda>s x. fl (s + g x)) 0 xs
          \<and> foldl (\<lambda>s x. fl (s + g x)) 0 xs \<le> sum_list (map g xs) * (1 + unit_roundoff) ^ length xs)"
  using assms
proof (induction xs rule: rev_induct)
  case Nil
  then show ?case by simp
next
  case (snoc x xs)
  define F where "F = foldl (\<lambda>s x. fl (s + g x)) 0 xs"
  define S where "S = sum_list (map g xs)"
  define n where "n = length xs"
  define L :: real where "L = 2 powr (- 298)"
  have Lpos: "0 < L" by (simp add: L_def)
  have L1022: "2 powr (- 1022) \<le> L" by (simp add: L_def)
  have Lint: "L = 2 powr of_int (- 298)" by (simp add: L_def)
  have gx: "g x = 0 \<or> L \<le> g x" using snoc.prems by (simp add: L_def)
  then have gx0: "0 \<le> g x" using Lpos by auto
  have IH: "(F = 0 \<and> S = 0) \<or> (L \<le> F \<and> S * (1 - unit_roundoff) ^ n \<le> F \<and> F \<le> S * (1 + unit_roundoff) ^ n)"
    using snoc.IH snoc.prems by (simp add: F_def S_def n_def L_def)
  have lo: "0 \<le> (1 - unit_roundoff) ^ n" "(1 - unit_roundoff) ^ n \<le> 1"
    using unit_roundoff_bounds by (simp_all add: power_le_one)
  have hi: "1 \<le> (1 + unit_roundoff) ^ n"
    using unit_roundoff_bounds by (simp add: one_le_power)
  have goal: "(fl (F + g x) = 0 \<and> S + g x = 0)
       \<or> (L \<le> fl (F + g x)
          \<and> (S + g x) * ((1 - unit_roundoff) ^ n * (1 - unit_roundoff)) \<le> fl (F + g x)
          \<and> fl (F + g x) \<le> (S + g x) * ((1 + unit_roundoff) ^ n * (1 + unit_roundoff)))"
  proof (cases "F + g x = 0")
    case True
    then have "S + g x = 0" using IH gx0 Lpos by auto
    then show ?thesis using True by simp
  next
    case False
    have FS: "S * (1 - unit_roundoff) ^ n \<le> F" "F \<le> S * (1 + unit_roundoff) ^ n"
      using IH by auto
    have "L \<le> F + g x" using IH gx gx0 False by auto
    then have big: "2 powr (- 1022) \<le> F + g x" and bigL: "2 powr of_int (- 298) \<le> F + g x"
      using L1022 Lint by linarith+
    have "L \<le> fl (F + g x)"
      using fl_ge_pow2 [OF bigL] Lint by simp
    moreover note fl_sum_step [OF gx0 lo hi FS fl_bounds [OF big]]
    ultimately show ?thesis by simp
  qed
  show ?case
    using goal by (simp add: F_def S_def n_def L_def mult.commute)
qed

lemma sqrt_pow_le:
  fixes a :: real
  assumes "0 \<le> a" "a \<le> 1"
  shows "a \<le> sqrt a"
  using assms by (metis real_sqrt_le_iff real_sqrt_abs2 abs_of_nonneg mult_left_le power2_eq_square)

lemma sqrt_pow_ge:
  fixes a :: real
  assumes "1 \<le> a"
  shows "sqrt a \<le> a"
proof -
  have "a \<le> a * a" using assms by simp
  then have "sqrt a \<le> sqrt (a * a)" by (simp only: real_sqrt_le_iff)
  then show ?thesis using assms by simp
qed

text \<open>The quotient by the length rounds once more.\<close>

lemma mean_round_bound:
  fixes S F :: real and n :: nat
  assumes n: "0 < n" "n \<le> 16384"
    and F: "2 powr (- 298) \<le> F" "S * (1 - unit_roundoff) ^ k \<le> F" "F \<le> S * (1 + unit_roundoff) ^ k"
  shows "2 powr (- 312) \<le> fl (F / real n)"
    "S / real n * (1 - unit_roundoff) ^ Suc k \<le> fl (F / real n)"
    "fl (F / real n) \<le> S / real n * (1 + unit_roundoff) ^ Suc k"
proof -
  have npos: "0 < real n" using n by simp
  have n16: "real n \<le> 16384" using n by simp
  have F0: "0 \<le> F" using F(1) by (smt (verit) powr_ge_zero)
  have "2 powr (- 298) / 16384 \<le> F / real n"
    by (rule frac_le [OF F0 F(1) npos n16])
  moreover have "(2::real) powr (- 298) / 16384 = 2 powr (- 312)"
  proof -
    have "(2::real) powr (- 312) * 2 powr 14 = 2 powr (- 298)"
      by (simp only: powr_add [symmetric]) simp
    moreover have "(2::real) powr 14 = 16384" by (simp add: powr_numeral)
    ultimately show ?thesis by simp
  qed
  ultimately have big': "2 powr (- 312) \<le> F / real n" by simp
  then have big: "2 powr of_int (- 312) \<le> F / real n" by simp
  show "2 powr (- 312) \<le> fl (F / real n)"
    using fl_ge_pow2 [OF big] by simp
  have "(2::real) powr (- 1022) \<le> 2 powr (- 312)" by simp
  then have big2: "2 powr (- 1022) \<le> F / real n"
    using big' by (rule order_trans)
  have lo: "S / real n * (1 - unit_roundoff) ^ k \<le> F / real n"
    using divide_right_mono [OF F(2), of "real n"] npos by simp
  have "S / real n * (1 - unit_roundoff) ^ k * (1 - unit_roundoff) \<le> F / real n * (1 - unit_roundoff)"
    using unit_roundoff_bounds by (intro mult_right_mono [OF lo]) simp
  also have "\<dots> \<le> fl (F / real n)" by (rule fl_bounds(1) [OF big2])
  finally show "S / real n * (1 - unit_roundoff) ^ Suc k \<le> fl (F / real n)"
    by (simp only: power_Suc2 mult.assoc)
  have hi: "F / real n \<le> S / real n * (1 + unit_roundoff) ^ k"
    using divide_right_mono [OF F(3), of "real n"] npos by simp
  have "fl (F / real n) \<le> F / real n * (1 + unit_roundoff)" by (rule fl_bounds(2) [OF big2])
  also have "\<dots> \<le> S / real n * (1 + unit_roundoff) ^ k * (1 + unit_roundoff)"
    using unit_roundoff_bounds by (intro mult_right_mono [OF hi]) simp
  finally show "fl (F / real n) \<le> S / real n * (1 + unit_roundoff) ^ Suc k"
    by (simp only: power_Suc2 mult.assoc)
qed

lemma sqrt_pow2_312: "sqrt (2 powr (- 312)) = 2 powr (- 156)"
proof -
  have "sqrt (2 powr (- 312)) = (2 powr (- 312)) powr (1 / 2)"
    by (simp add: powr_half_sqrt)
  also have "\<dots> = 2 powr (- 156)" by (simp add: powr_powr)
  finally show ?thesis .
qed

text \<open>The volume \<^verbatim>\<open>calculateVolume\<close> returns for a frame of \<open>n\<close> elements of a
  \<^verbatim>\<open>Float32Array\<close> is the root mean square up to \<open>n + 2\<close> roundings.\<close>

lemma calculateVolume_bound:
  assumes ne: "frame \<noteq> []" and len: "length frame \<le> 16384"
    and f32: "\<forall>x\<in>set frame. float32 x"
  shows "\<exists>v. calculateVolume frame = Some v
           \<and> rms frame * (1 - unit_roundoff) ^ (length frame + 2) \<le> v
           \<and> v \<le> rms frame * (1 + unit_roundoff) ^ (length frame + 2)"
proof -
  define n where "n = length frame"
  define F where "F = foldl (\<lambda>s x. fl (s + x * x)) 0 frame"
  define S where "S = sum_list (map (\<lambda>x. x * x) frame)"
  define v where "v = fl (sqrt (fl (F / real n)))"
  have npos: "0 < n" "n \<le> 16384" using ne len by (simp_all add: n_def)
  have cv: "calculateVolume frame = Some v"
    using ne by (simp add: calculateVolume_def foldl_fl_squares [OF f32] v_def F_def n_def)
  have rm: "rms frame = sqrt (S / real n)"
    by (simp add: rms_def S_def n_def power2_eq_square)
  have S0: "0 \<le> S" unfolding S_def by (rule sum_list_nonneg) auto
  have r0: "0 \<le> rms frame" unfolding rm using S0 by simp
  have a: "0 \<le> (1 - unit_roundoff) ^ Suc n" "(1 - unit_roundoff) ^ Suc n \<le> 1"
    using unit_roundoff_bounds by (simp_all add: power_le_one mult_le_one)
  have b: "1 \<le> (1 + unit_roundoff) ^ Suc n"
    using unit_roundoff_bounds by (intro one_le_power) simp
  have sm: "\<forall>x\<in>set frame. x * x = 0 \<or> 2 powr (- 298) \<le> x * x"
    using f32 float32_square(2) by blast
  from fl_sum_bound [of frame "\<lambda>x. x * x", OF sm]
  consider (zero) "F = 0" "S = 0"
    | (big) "2 powr (- 298) \<le> F" "S * (1 - unit_roundoff) ^ n \<le> F" "F \<le> S * (1 + unit_roundoff) ^ n"
    unfolding F_def S_def n_def by blast
  then have "rms frame * (1 - unit_roundoff) ^ (n + 2) \<le> v
           \<and> v \<le> rms frame * (1 + unit_roundoff) ^ (n + 2)"
  proof cases
    case zero
    then show ?thesis by (simp add: v_def rm)
  next
    case big
    define m where "m = fl (F / real n)"
    note mb = mean_round_bound [OF npos big, folded m_def]
    have m0: "0 \<le> m" using mb(1) by (smt (verit) powr_ge_zero)
    have "sqrt (2 powr (- 312)) \<le> sqrt m" using mb(1) by (simp only: real_sqrt_le_iff)
    then have "2 powr (- 156) \<le> sqrt m" by (simp only: sqrt_pow2_312)
    moreover have "(2::real) powr (- 1022) \<le> 2 powr (- 156)" by simp
    ultimately have big2: "2 powr (- 1022) \<le> sqrt m" by (rule order_trans [rotated])
    have v1: "sqrt m * (1 - unit_roundoff) \<le> v" "v \<le> sqrt m * (1 + unit_roundoff)"
      using fl_bounds [OF big2] by (simp_all add: v_def m_def)
    have "rms frame * (1 - unit_roundoff) ^ Suc n \<le> rms frame * sqrt ((1 - unit_roundoff) ^ Suc n)"
      using sqrt_pow_le [OF a] r0 by (rule mult_left_mono)
    also have "\<dots> = sqrt (S / real n * (1 - unit_roundoff) ^ Suc n)"
      by (simp only: rm real_sqrt_mult)
    also have "\<dots> \<le> sqrt m" using mb(2) by (simp only: real_sqrt_le_iff)
    finally have "rms frame * (1 - unit_roundoff) ^ Suc n * (1 - unit_roundoff) \<le> sqrt m * (1 - unit_roundoff)"
      using unit_roundoff_bounds by (intro mult_right_mono) simp_all
    then have lower: "rms frame * (1 - unit_roundoff) ^ (n + 2) \<le> v"
      using v1(1) by (simp add: mult.assoc mult.commute mult.left_commute)
    have "sqrt m \<le> sqrt (S / real n * (1 + unit_roundoff) ^ Suc n)"
      using mb(3) by (simp only: real_sqrt_le_iff)
    also have "\<dots> = rms frame * sqrt ((1 + unit_roundoff) ^ Suc n)"
      by (simp only: rm real_sqrt_mult)
    also have "\<dots> \<le> rms frame * (1 + unit_roundoff) ^ Suc n"
      using sqrt_pow_ge [OF b] r0 by (rule mult_left_mono)
    finally have "sqrt m * (1 + unit_roundoff) \<le> rms frame * (1 + unit_roundoff) ^ Suc n * (1 + unit_roundoff)"
      using unit_roundoff_bounds by (intro mult_right_mono) simp_all
    then have upper: "v \<le> rms frame * (1 + unit_roundoff) ^ (n + 2)"
      using v1(2) by (simp add: mult.assoc mult.commute mult.left_commute)
    from lower upper show ?thesis ..
  qed
  then show ?thesis using cv unfolding n_def by blast
qed

lemma pow_upper:
  fixes u :: real
  assumes "0 \<le> u" "real k * u \<le> 1 / 2"
  shows "(1 + u) ^ k \<le> 1 + 2 * real k * u"
  using assms(2)
proof (induction k)
  case 0
  then show ?case by simp
next
  case (Suc k)
  have ku: "real k * u \<le> 1 / 2"
    using Suc.prems assms(1) by (simp add: algebra_simps)
  have IH: "(1 + u) ^ k \<le> 1 + 2 * real k * u" by (rule Suc.IH [OF ku])
  have "(1 + u) ^ Suc k = (1 + u) ^ k * (1 + u)" by simp
  also have "\<dots> \<le> (1 + 2 * real k * u) * (1 + u)"
    using IH assms(1) by (intro mult_right_mono) simp_all
  also have "\<dots> = 1 + 2 * real k * u + u + u * (2 * (real k * u))"
    by (simp add: algebra_simps)
  also have "\<dots> \<le> 1 + 2 * real k * u + u + u * 1"
    using ku assms(1) by (intro add_left_mono mult_left_mono) simp_all
  also have "\<dots> = 1 + 2 * real (Suc k) * u" by (simp add: algebra_simps)
  finally show ?case .
qed

lemma roundoff_powers:
  assumes "k \<le> 16386"
  shows "1 - 1 / 2 ^ 37 \<le> (1 - unit_roundoff) ^ k" "(1 + unit_roundoff) ^ k \<le> 1 + 1 / 2 ^ 37"
proof -
  define T where "T = real k * unit_roundoff"
  have "real k / 2 ^ 53 \<le> 16386 / 2 ^ 53"
    using assms by (intro divide_right_mono) simp_all
  moreover have "(16386::real) / 2 ^ 53 \<le> 1 / 2 ^ 38" by simp
  ultimately have "real k / 2 ^ 53 \<le> 1 / 2 ^ 38" by (rule order_trans)
  then have B: "T \<le> 1 / 2 ^ 38"
    by (simp only: T_def unit_roundoff_def times_divide_eq_right mult_1_right)
  have "T \<le> 1 / 2 ^ 37" "T \<le> 1 / 2" "2 * T \<le> 1 / 2 ^ 37"
    using B by simp_all
  then have ku37: "real k * unit_roundoff \<le> 1 / 2 ^ 37" "real k * unit_roundoff \<le> 1 / 2"
    "2 * real k * unit_roundoff \<le> 1 / 2 ^ 37"
    by (simp_all only: T_def mult.assoc)
  have "1 + real k * (- unit_roundoff) \<le> (1 + (- unit_roundoff)) ^ k"
    using unit_roundoff_bounds by (intro Bernoulli_inequality) simp
  then have "1 - real k * unit_roundoff \<le> (1 - unit_roundoff) ^ k" by simp
  then show "1 - 1 / 2 ^ 37 \<le> (1 - unit_roundoff) ^ k"
    using ku37(1) by linarith
  have "(1 + unit_roundoff) ^ k \<le> 1 + 2 * real k * unit_roundoff"
    using unit_roundoff_bounds ku37(2) by (intro pow_upper) simp_all
  then show "(1 + unit_roundoff) ^ k \<le> 1 + 1 / 2 ^ 37"
    using ku37(3) by linarith
qed

lemma relative_error:
  fixes r v lo hi :: real
  assumes "0 \<le> r" "r * lo \<le> v" "v \<le> r * hi" "1 - e \<le> lo" "hi \<le> 1 + e"
  shows "\<bar>v - r\<bar> \<le> r * e"
proof -
  have "r * (1 - e) \<le> r * lo" using assms(1,4) by (rule mult_left_mono [rotated])
  moreover have "r * hi \<le> r * (1 + e)" using assms(1,5) by (rule mult_left_mono [rotated])
  ultimately show ?thesis using assms(2,3) by (simp add: abs_le_iff algebra_simps)
qed

text \<open>For the frames a script processor delivers, the volume differs from the root mean square
  by a relative error of at most \<open>1 / 2 ^ 37\<close>.\<close>

lemma calculateVolume_rms:
  assumes ne: "frame \<noteq> []" and len: "length frame \<le> 16384"
    and f32: "\<forall>x\<in>set frame. float32 x"
  shows "\<exists>v. calculateVolume frame = Some v \<and> \<bar>v - rms frame\<bar> \<le> rms frame / 2 ^ 37"
proof -
  from calculateVolume_bound [OF assms] obtain v where v: "calculateVolume frame = Some v"
    "rms frame * (1 - unit_roundoff) ^ (length frame + 2) \<le> v"
    "v \<le> rms frame * (1 + unit_roundoff) ^ (length frame + 2)"
    by blast
  have k: "length frame + 2 \<le> 16386" using len by simp
  have r0: "0 \<le> rms frame" unfolding rms_def
    by (intro real_sqrt_ge_zero divide_nonneg_nonneg sum_list_nonneg) auto
  have "\<bar>v - rms frame\<bar> \<le> rms frame * (1 / 2 ^ 37)"
    by (rule relative_error [OF r0 v(2,3) roundoff_powers [OF k]])
  then show ?thesis using v(1) by simp
qed

text \<open>The same for the mean absolute value of the Realtime adapter, with \<open>n + 1\<close> roundings.\<close>

lemma realtime_average_mean:
  assumes ne: "frame \<noteq> []" and len: "length frame \<le> 16384"
    and f32: "\<forall>x\<in>set frame. float32 x"
  shows "\<exists>a. realtime_average frame = Some a
           \<and> \<bar>a - (\<Sum>x\<leftarrow>frame. \<bar>x\<bar>) / real (length frame)\<bar>
               \<le> (\<Sum>x\<leftarrow>frame. \<bar>x\<bar>) / real (length frame) / 2 ^ 37"
proof -
  define n where "n = length frame"
  define F where "F = foldl (\<lambda>s x. fl (s + \<bar>x\<bar>)) 0 frame"
  define S where "S = sum_list (map abs frame)"
  define a where "a = fl (F / real n)"
  have npos: "0 < n" "n \<le> 16384" using ne len by (simp_all add: n_def)
  have ra: "realtime_average frame = Some a"
    using ne by (simp add: realtime_average_def a_def F_def n_def)
  have S0: "0 \<le> S" unfolding S_def by (rule sum_list_nonneg) auto
  then have M0: "0 \<le> S / real n" by simp
  have sm: "\<forall>x\<in>set frame. \<bar>x\<bar> = 0 \<or> 2 powr (- 298) \<le> \<bar>x\<bar>"
    using f32 float32_abs by blast
  from fl_sum_bound [of frame abs, OF sm]
  consider (zero) "F = 0" "S = 0"
    | (big) "2 powr (- 298) \<le> F" "S * (1 - unit_roundoff) ^ n \<le> F" "F \<le> S * (1 + unit_roundoff) ^ n"
    unfolding F_def S_def n_def by blast
  then have "\<bar>a - S / real n\<bar> \<le> S / real n * (1 / 2 ^ 37)"
  proof cases
    case zero
    then show ?thesis by (simp add: a_def)
  next
    case big
    note mb = mean_round_bound [OF npos big, folded a_def]
    have k: "Suc n \<le> 16386" using npos by simp
    show ?thesis
      by (rule relative_error [OF M0 mb(2,3) roundoff_powers [OF k]])
  qed
  then show ?thesis using ra by (simp add: S_def n_def)
qed

text \<open>Frames on which every operation is exact: 4096 samples of 1/2, silence, and a burst of 64
  samples of 1/2 in silence.\<close>

lemma foldl_squares_half:
  "k + n < 2 ^ 53 \<Longrightarrow>
     foldl (\<lambda>sum x. fl (sum + fl (x * x))) (real k / 4) (replicate n (1 / 2)) = real (k + n) / 4"
proof (induction n arbitrary: k)
  case 0
  then show ?case by simp
next
  case (Suc n)
  let ?f = "\<lambda>sum x :: real. fl (sum + fl (x * x))"
  have "real k / 4 + 1 / 4 = real (Suc k) / 2 ^ 2" by (simp add: add_divide_distrib)
  then have "fl (real k / 4 + 1 / 4) = fl (real (Suc k) / 2 ^ 2)" by (rule arg_cong)
  also have "\<dots> = real (Suc k) / 2 ^ 2" using Suc.prems by (intro fl_nat_pow2) simp_all
  finally have "fl (real k / 4 + 1 / 4) = real (Suc k) / 4" by simp
  moreover have "fl (1 / 2 * (1 / 2)) = 1 / 4" by simp
  ultimately have step: "?f (real k / 4) (1 / 2) = real (Suc k) / 4" by (simp only:)
  have "foldl ?f (real k / 4) (replicate (Suc n) (1 / 2))
      = foldl ?f (?f (real k / 4) (1 / 2)) (replicate n (1 / 2))"
    by (simp only: replicate_Suc foldl_Cons)
  also have "\<dots> = foldl ?f (real (Suc k) / 4) (replicate n (1 / 2))" by (simp only: step)
  also have "\<dots> = real (Suc k + n) / 4" using Suc.prems by (intro Suc.IH) simp
  finally show ?case by simp
qed

lemma foldl_squares_zero:
  "fl a = a \<Longrightarrow> foldl (\<lambda>sum x. fl (sum + fl (x * x))) a (replicate n 0) = a"
  by (induction n) simp_all

lemma foldl_abs_half:
  "k + n < 2 ^ 53 \<Longrightarrow>
     foldl (\<lambda>sum x. fl (sum + \<bar>x\<bar>)) (real k / 2) (replicate n (1 / 2)) = real (k + n) / 2"
proof (induction n arbitrary: k)
  case 0
  then show ?case by simp
next
  case (Suc n)
  let ?f = "\<lambda>sum x :: real. fl (sum + \<bar>x\<bar>)"
  have "real k / 2 + 1 / 2 = real (Suc k) / 2 ^ 1" by (simp add: add_divide_distrib)
  then have "fl (real k / 2 + 1 / 2) = fl (real (Suc k) / 2 ^ 1)" by (rule arg_cong)
  also have "\<dots> = real (Suc k) / 2 ^ 1" using Suc.prems by (intro fl_nat_pow2) simp_all
  finally have "fl (real k / 2 + 1 / 2) = real (Suc k) / 2" by simp
  moreover have "\<bar>1 / 2 :: real\<bar> = 1 / 2" by simp
  ultimately have step: "?f (real k / 2) (1 / 2) = real (Suc k) / 2" by (simp only:)
  have "foldl ?f (real k / 2) (replicate (Suc n) (1 / 2))
      = foldl ?f (?f (real k / 2) (1 / 2)) (replicate n (1 / 2))"
    by (simp only: replicate_Suc foldl_Cons)
  also have "\<dots> = foldl ?f (real (Suc k) / 2) (replicate n (1 / 2))" by (simp only: step)
  also have "\<dots> = real (Suc k + n) / 2" using Suc.prems by (intro Suc.IH) simp
  finally show ?case by simp
qed

lemma foldl_abs_zero:
  "fl a = a \<Longrightarrow> foldl (\<lambda>sum x. fl (sum + \<bar>x\<bar>)) a (replicate n 0) = a"
  by (induction n) simp_all

lemma calculateVolume_half: "calculateVolume (replicate 4096 (1 / 2)) = Some (1 / 2)"
proof -
  have "foldl (\<lambda>sum x. fl (sum + fl (x * x))) (real 0 / 4) (replicate 4096 (1 / 2)) = real (0 + 4096) / 4"
    by (rule foldl_squares_half) simp
  then have "foldl (\<lambda>sum x. fl (sum + fl (x * x))) 0 (replicate 4096 (1 / 2)) = 1024" by simp
  then show ?thesis
    by (simp add: calculateVolume_def real_sqrt_divide)
qed

lemma calculateVolume_zero: "calculateVolume (replicate 4096 0) = Some 0"
  by (simp add: calculateVolume_def foldl_squares_zero)

lemma calculateVolume_burst:
  "calculateVolume (replicate 64 (1 / 2) @ replicate 4032 0) = Some (1 / 16)"
proof -
  have "foldl (\<lambda>sum x. fl (sum + fl (x * x))) (real 0 / 4) (replicate 64 (1 / 2)) = real (0 + 64) / 4"
    by (rule foldl_squares_half) simp
  then have "foldl (\<lambda>sum x. fl (sum + fl (x * x))) 0 (replicate 64 (1 / 2)) = 16" by simp
  then have "foldl (\<lambda>sum x. fl (sum + fl (x * x))) 0 (replicate 64 (1 / 2) @ replicate 4032 0) = 16"
    by (simp add: foldl_squares_zero)
  then show ?thesis
    by (simp add: calculateVolume_def real_sqrt_divide)
qed

lemma realtime_average_burst:
  "realtime_average (replicate 64 (1 / 2) @ replicate 4032 0) = Some (1 / 128)"
proof -
  have "foldl (\<lambda>sum x. fl (sum + \<bar>x\<bar>)) (real 0 / 2) (replicate 64 (1 / 2)) = real (0 + 64) / 2"
    by (rule foldl_abs_half) simp
  then have "foldl (\<lambda>sum x. fl (sum + \<bar>x\<bar>)) 0 (replicate 64 (1 / 2)) = 32" by simp
  then have "foldl (\<lambda>sum x. fl (sum + \<bar>x\<bar>)) 0 (replicate 64 (1 / 2) @ replicate 4032 0) = 32"
    by (simp add: foldl_abs_zero)
  then show ?thesis
    by (simp add: realtime_average_def)
qed

lemma rms_burst: "rms (replicate 64 (1 / 2) @ replicate 4032 0) = 1 / 16"
  by (simp add: rms_def sum_list_replicate power2_eq_square real_sqrt_divide)

lemma rms_half: "rms (replicate 4096 (1 / 2)) = 1 / 2"
  by (simp add: rms_def sum_list_replicate power2_eq_square real_sqrt_divide)

text \<open>
  Claim C6 (as amended). For the three adapters that buffer audio for a transcription request
  (Nano, Whisper, Google) and every frame a script processor delivers (up to 16384 elements of
  a \<^verbatim>\<open>Float32Array\<close>), the volume compared against the noise threshold is
  \<open>sqrt(mean(sample\<^sub>i\<^sup>2))\<close> evaluated in double precision, the sum taken from the left and
  every operation rounded; it differs from the root mean square of the frame by at most
  \<open>1 / 2 ^ 37\<close> of it. A frame whose volume is greater than the threshold (the double nearest to
  0.01, 0.005 and 0.01) marks the adapter as speaking, and a frame whose volume is not leaves
  a silent adapter silent (for Whisper: while the buffer holds fewer than 50 frames, since a
  full buffer is finalised before any classification). The Realtime adapter compares the mean
  of the absolute sample values, evaluated the same way, with the double nearest to 0.015.
\<close>

theorem volume_is_rounded_rms:
  assumes "frame \<noteq> []" "length frame \<le> 16384" "\<forall>x\<in>set frame. float32 x"
  shows "\<exists>v a. calculateVolume frame = Some v
    \<and> \<bar>v - rms frame\<bar> \<le> rms frame / 2 ^ 37
    \<and> (v > fl (1 / 100) \<longrightarrow>
         nano_processAudioData frame now n
           = n\<lparr>audioChunks := audioChunks n @ [frame], isSpeaking := True,
               lastSpeechTime := now, silenceStart := None\<rparr>)
    \<and> (\<not> v > fl (1 / 100) \<and> \<not> isSpeaking n \<longrightarrow>
         nano_processAudioData frame now n = n\<lparr>audioChunks := audioChunks n @ [frame]\<rparr>)
    \<and> (length (audioChunks w) < 50 \<and> v > fl (5 / 1000) \<longrightarrow>
         whisper_processAudioData frame now w
           = w\<lparr>audioChunks := audioChunks w @ [frame], isSpeaking := True,
               lastSpeechTime := now, silenceStart := None\<rparr>)
    \<and> (length (audioChunks w) < 50 \<and> \<not> v > fl (5 / 1000) \<and> \<not> isSpeaking w \<longrightarrow>
         whisper_processAudioData frame now w = w\<lparr>audioChunks := audioChunks w @ [frame]\<rparr>)
    \<and> (v > fl (1 / 100) \<longrightarrow>
         google_processAudioData frame now g
           = g\<lparr>googleChunks := googleChunks g @ [frame], isSpeaking := True,
               lastSpeechTime := now, silenceStart := None\<rparr>)
    \<and> (\<not> v > fl (1 / 100) \<and> \<not> isSpeaking g \<longrightarrow>
         google_processAudioData frame now g = g\<lparr>googleChunks := googleChunks g @ [frame]\<rparr>)
    \<and> realtime_average frame = Some a
    \<and> \<bar>a - (\<Sum>x\<leftarrow>frame. \<bar>x\<bar>) / real (length frame)\<bar>
         \<le> (\<Sum>x\<leftarrow>frame. \<bar>x\<bar>) / real (length frame) / 2 ^ 37
    \<and> (a > noiseThreshold r \<longrightarrow> isSpeaking (realtime_processAudioData frame now timestamp r))
    \<and> (\<not> a > noiseThreshold r \<and> \<not> isSpeaking r \<longrightarrow>
         realtime_processAudioData frame now timestamp r = r)
    \<and> fl (1 / 100) = 5764607523034235 / 2 ^ 59
    \<and> fl (5 / 1000) = 5764607523034235 / 2 ^ 60
    \<and> noiseThreshold createRealtimeService = 1080863910568919 / 2 ^ 56"
proof -
  from calculateVolume_rms [OF assms] obtain v where v: "calculateVolume frame = Some v"
    and vr: "\<bar>v - rms frame\<bar> \<le> rms frame / 2 ^ 37"
    by blast
  from realtime_average_mean [OF assms] obtain a where a: "realtime_average frame = Some a"
    and ar: "\<bar>a - (\<Sum>x\<leftarrow>frame. \<bar>x\<bar>) / real (length frame)\<bar>
         \<le> (\<Sum>x\<leftarrow>frame. \<bar>x\<bar>) / real (length frame) / 2 ^ 37"
    by blast
  have nano: "(v > fl (1 / 100) \<longrightarrow>
         nano_processAudioData frame now n
           = n\<lparr>audioChunks := audioChunks n @ [frame], isSpeaking := True,
               lastSpeechTime := now, silenceStart := None\<rparr>)
    \<and> (\<not> v > fl (1 / 100) \<and> \<not> isSpeaking n \<longrightarrow>
         nano_processAudioData frame now n = n\<lparr>audioChunks := audioChunks n @ [frame]\<rparr>)"
    by (simp add: nano_processAudioData_def v exceeds_def Let_def)
  have whisper: "(length (audioChunks w) < 50 \<and> v > fl (5 / 1000) \<longrightarrow>
         whisper_processAudioData frame now w
           = w\<lparr>audioChunks := audioChunks w @ [frame], isSpeaking := True,
               lastSpeechTime := now, silenceStart := None\<rparr>)
    \<and> (length (audioChunks w) < 50 \<and> \<not> v > fl (5 / 1000) \<and> \<not> isSpeaking w \<longrightarrow>
         whisper_processAudioData frame now w = w\<lparr>audioChunks := audioChunks w @ [frame]\<rparr>)"
    by (simp add: whisper_processAudioData_def v exceeds_def Let_def)
  have google: "(v > fl (1 / 100) \<longrightarrow>
         google_processAudioData frame now g
           = g\<lparr>googleChunks := googleChunks g @ [frame], isSpeaking := True,
               lastSpeechTime := now, silenceStart := None\<rparr>)
    \<and> (\<not> v > fl (1 / 100) \<and> \<not> isSpeaking g \<longrightarrow>
         google_processAudioData frame now g = g\<lparr>googleChunks := googleChunks g @ [frame]\<rparr>)"
    by (simp add: google_processAudioData_def v exceeds_def Let_def)
  have realtime: "(a > noiseThreshold r \<longrightarrow> isSpeaking (realtime_processAudioData frame now timestamp r))
    \<and> (\<not> a > noiseThreshold r \<and> \<not> isSpeaking r \<longrightarrow>
         realtime_processAudioData frame now timestamp r = r)"
    by (simp add: realtime_processAudioData_def a exceeds_def Let_def)
  have thresholds: "fl (1 / 100) = 5764607523034235 / 2 ^ 59
    \<and> fl (5 / 1000) = 5764607523034235 / 2 ^ 60
    \<and> noiseThreshold createRealtimeService = 1080863910568919 / 2 ^ 56"
    by (simp only: fl_thresholds createRealtimeService_def realtime.simps simp_thms)
  from v vr a ar nano whisper google realtime thresholds show ?thesis
    by blast
qed

theorem volume_is_rounded_rms_witness:
  "replicate 4096 (1 / 2 :: real) \<noteq> [] \<and> length (replicate 4096 (1 / 2 :: real)) \<le> 16384
   \<and> float32 (1 / 2)
   \<and> calculateVolume (replicate 4096 (1 / 2)) = Some (1 / 2)
   \<and> rms (replicate 4096 (1 / 2)) = 1 / 2
   \<and> isSpeaking (nano_processAudioData (replicate 4096 (1 / 2)) 7
        (createAssemblyAINanoService 16000 False))
   \<and> isSpeaking (whisper_processAudioData (replicate 4096 (1 / 2)) 7
        (createWhisperService 16000 False ''en''))
   \<and> isSpeaking (google_processAudioData (replicate 4096 (1 / 2)) 7
        (createGoogleSpeechService ''en-US''))
   \<and> isSpeaking (realtime_processAudioData (replicate 4096 (1 / 2)) 7 ''12:00:00''
        createRealtimeService)"
proof -
  have h: "replicate 4096 (1 / 2 :: real) \<noteq> []" "length (replicate 4096 (1 / 2 :: real)) \<le> 16384"
    "\<forall>x\<in>set (replicate 4096 (1 / 2 :: real)). float32 x"
    by (simp_all add: float32_values)
  have t: "(1 / 2 :: real) > fl (1 / 100)" "(1 / 2 :: real) > fl (5 / 1000)"
    by (simp_all add: threshold_values)
  have e: "createWhisperService 16000 False ''en'' = createWhisperService 16000 False ''en''" ..
  from volume_is_rounded_rms [OF h, of 7 "createAssemblyAINanoService 16000 False"
      "createWhisperService 16000 False ''en''" "createGoogleSpeechService ''en-US''"
      createRealtimeService "''12:00:00''"]
  obtain v a where v: "calculateVolume (replicate 4096 (1 / 2)) = Some v"
    and n: "v > fl (1 / 100) \<longrightarrow>
         nano_processAudioData (replicate 4096 (1 / 2)) 7 (createAssemblyAINanoService 16000 False)
           = (createAssemblyAINanoService 16000 False)
               \<lparr>audioChunks := audioChunks (createAssemblyAINanoService 16000 False)
                   @ [replicate 4096 (1 / 2)], isSpeaking := True,
                 lastSpeechTime := 7, silenceStart := None\<rparr>"
    and w: "length (audioChunks (createWhisperService 16000 False ''en'')) < 50 \<and> v > fl (5 / 1000) \<longrightarrow>
         whisper_processAudioData (replicate 4096 (1 / 2)) 7 (createWhisperService 16000 False ''en'')
           = (createWhisperService 16000 False ''en'')
               \<lparr>audioChunks := audioChunks (createWhisperService 16000 False ''en'')
                   @ [replicate 4096 (1 / 2)], isSpeaking := True,
                 lastSpeechTime := 7, silenceStart := None\<rparr>"
    and g: "v > fl (1 / 100) \<longrightarrow>
         google_processAudioData (replicate 4096 (1 / 2)) 7 (createGoogleSpeechService ''en-US'')
           = (createGoogleSpeechService ''en-US'')
               \<lparr>googleChunks := googleChunks (createGoogleSpeechService ''en-US'')
                   @ [replicate 4096 (1 / 2)], isSpeaking := True,
                 lastSpeechTime := 7, silenceStart := None\<rparr>"
    and a: "realtime_average (replicate 4096 (1 / 2)) = Some a"
    and r: "a > noiseThreshold createRealtimeService \<longrightarrow>
         isSpeaking (realtime_processAudioData (replicate 4096 (1 / 2)) 7 ''12:00:00''
           createRealtimeService)"
    by blast
  have v2: "v = 1 / 2" using v by (simp add: calculateVolume_half)
  have "foldl (\<lambda>sum x. fl (sum + \<bar>x\<bar>)) (real 0 / 2) (replicate 4096 (1 / 2)) = real (0 + 4096) / 2"
    by (rule foldl_abs_half) simp
  then have "realtime_average (replicate 4096 (1 / 2)) = Some (1 / 2)"
    by (simp add: realtime_average_def)
  then have a2: "a = 1 / 2" using a by simp
  have "a > noiseThreshold createRealtimeService"
    by (simp add: a2 createRealtimeService_def threshold_values)
  with r have r': "isSpeaking (realtime_processAudioData (replicate 4096 (1 / 2)) 7 ''12:00:00''
           createRealtimeService)" by blast
  have lw: "length (audioChunks (createWhisperService 16000 False ''en'')) < 50"
    by (simp add: createWhisperService_def)
  from n w g t lw v2 have
    "isSpeaking (nano_processAudioData (replicate 4096 (1 / 2)) 7
        (createAssemblyAINanoService 16000 False))"
    "isSpeaking (whisper_processAudioData (replicate 4096 (1 / 2)) 7
        (createWhisperService 16000 False ''en''))"
    "isSpeaking (google_processAudioData (replicate 4096 (1 / 2)) 7
        (createGoogleSpeechService ''en-US''))"
    by simp_all
  with h r' show ?thesis
    by (simp add: calculateVolume_half rms_half float32_values)
qed

text \<open>The claim as stated fails for the Realtime adapter. A frame of 4096 samples holds a burst
  of 64 samples of 1/2 in silence: its root mean square, 1/16, is above the threshold 0.015 (the
  three adapters above compute exactly 1/16 and take the frame for speech), its mean absolute
  value, 1/128, is not, and the Realtime adapter stays silent.\<close>

theorem realtime_volume_counterexample:
  "length (replicate 64 (1 / 2 :: real) @ replicate 4032 0) = 4096
   \<and> rms (replicate 64 (1 / 2) @ replicate 4032 0) = 1 / 16
   \<and> calculateVolume (replicate 64 (1 / 2) @ replicate 4032 0) = Some (1 / 16)
   \<and> rms (replicate 64 (1 / 2) @ replicate 4032 0) > noiseThreshold createRealtimeService
   \<and> realtime_average (replicate 64 (1 / 2) @ replicate 4032 0) = Some (1 / 128)
   \<and> \<not> isSpeaking (realtime_processAudioData (replicate 64 (1 / 2) @ replicate 4032 0) 7
          ''12:00:00'' createRealtimeService)
   \<and> isSpeaking (nano_processAudioData (replicate 64 (1 / 2) @ replicate 4032 0) 7
        (createAssemblyAINanoService 16000 False))"
  by (simp add: rms_burst calculateVolume_burst realtime_average_burst
      realtime_processAudioData_def nano_processAudioData_def exceeds_def
      createRealtimeService_def createAssemblyAINanoService_def threshold_values Let_def)

section \<open>The buffered adapters\<close>

lemmas capture_defs = emit_def release_audio_def clear_refs_def request_media_def wire_audio_def
  create_graph_def audio_context_accepts_def script_processor_accepts_def delivers_def
  isListening_def

lemma transcript_updates_append [simp]:
  "transcript_updates (xs @ ys) = transcript_updates xs @ transcript_updates ys"
  by (induction xs rule: transcript_updates.induct) simp_all

lemma requests_append [simp]: "requests (xs @ ys) = requests xs @ requests ys"
  by (induction xs rule: requests.induct) simp_all

lemma on_response_failure:
  "r = Threw \<or> r = NotOk \<Longrightarrow> on_response r s = emit [ConsoleError] s"
  by (auto simp add: on_response_def)

lemma on_response_text:
  "t \<noteq> [] \<Longrightarrow>
   on_response (Body t) s
     = emit [TranscriptUpdate (trim (currentSentence s @ t @ '' ''))]
         (s\<lparr>currentSentence := currentSentence s @ t @ '' ''\<rparr>)"
  by (simp add: on_response_def Let_def)

lemma on_response_Body:
  "on_response (Body t) s
     = (if t \<noteq> [] then
          emit [TranscriptUpdate (trim (currentSentence s @ t @ '' ''))]
            (s\<lparr>currentSentence := currentSentence s @ t @ '' ''\<rparr>)
        else s)"
  by (simp add: on_response_def Let_def)


text \<open>An adapter created with a sample rate for which the constructor of the audio context
  throws never listens and never encodes: the encoder receives accepted rates only.\<close>

lemma nano_unaccepted_step:
  assumes "\<not> audio_context_accepts (sampleRate s)" "\<not> processor s" "\<not> isCurrentlyListening s"
  shows "sampleRate (nano_step s e) = sampleRate s \<and> \<not> processor (nano_step s e)
    \<and> \<not> isCurrentlyListening (nano_step s e)
    \<and> requests (effects (nano_step s e)) = requests (effects s)"
proof (cases e)
  case (Response r)
  then show ?thesis
    using assms
    by (cases r) (simp_all add: nano_finalizeSentence_resume_def on_response_def emit_def Let_def)
qed (use assms in \<open>simp_all add: nano_start_def nano_start_resume_def nano_stop_def
    request_media_def wire_audio_def create_graph_def delivers_def emit_def Let_def\<close>)

lemma nano_unaccepted_run:
  assumes "\<not> audio_context_accepts rate"
  shows "\<not> isListening (nano_run (createAssemblyAINanoService rate callback) evs)
    \<and> requests (effects (nano_run (createAssemblyAINanoService rate callback) evs)) = []"
proof -
  have "sampleRate (nano_run (createAssemblyAINanoService rate callback) evs) = rate
    \<and> \<not> processor (nano_run (createAssemblyAINanoService rate callback) evs)
    \<and> \<not> isCurrentlyListening (nano_run (createAssemblyAINanoService rate callback) evs)
    \<and> requests (effects (nano_run (createAssemblyAINanoService rate callback) evs)) = []"
  proof (induction evs rule: rev_induct)
    case Nil
    then show ?case by (simp add: nano_run_def createAssemblyAINanoService_def)
  next
    case (snoc e evs)
    have "nano_run (createAssemblyAINanoService rate callback) (evs @ [e])
        = nano_step (nano_run (createAssemblyAINanoService rate callback) evs) e"
      by (simp add: nano_run_def)
    then show ?case
      using snoc.IH assms
        nano_unaccepted_step [of "nano_run (createAssemblyAINanoService rate callback) evs" e]
      by simp
  qed
  then show ?thesis by (simp add: isListening_def)
qed

lemma whisper_unaccepted_step:
  assumes "\<not> audio_context_accepts (sampleRate s)" "\<not> processor s" "\<not> isCurrentlyListening s"
    "audioChunks s = []"
  shows "sampleRate (whisper_step s e) = sampleRate s \<and> \<not> processor (whisper_step s e)
    \<and> \<not> isCurrentlyListening (whisper_step s e) \<and> audioChunks (whisper_step s e) = []
    \<and> requests (effects (whisper_step s e)) = requests (effects s)"
proof (cases e)
  case (Response r)
  then show ?thesis
    using assms
    by (cases r) (simp_all add: whisper_finalizeSentence_resume_def on_response_def emit_def Let_def)
qed (use assms in \<open>simp_all add: whisper_start_def whisper_start_resume_def whisper_stop_def
    whisper_timer_def request_media_def wire_audio_def create_graph_def delivers_def emit_def
    Let_def\<close>)

lemma whisper_unaccepted_run:
  assumes "\<not> audio_context_accepts rate"
  shows "\<not> isListening (whisper_run (createWhisperService rate callback lang) evs)
    \<and> requests (effects (whisper_run (createWhisperService rate callback lang) evs)) = []"
proof -
  have "sampleRate (whisper_run (createWhisperService rate callback lang) evs) = rate
    \<and> \<not> processor (whisper_run (createWhisperService rate callback lang) evs)
    \<and> \<not> isCurrentlyListening (whisper_run (createWhisperService rate callback lang) evs)
    \<and> audioChunks (whisper_run (createWhisperService rate callback lang) evs) = []
    \<and> requests (effects (whisper_run (createWhisperService rate callback lang) evs)) = []"
  proof (induction evs rule: rev_induct)
    case Nil
    then show ?case by (simp add: whisper_run_def createWhisperService_def)
  next
    case (snoc e evs)
    have "whisper_run (createWhisperService rate callback lang) (evs @ [e])
        = whisper_step (whisper_run (createWhisperService rate callback lang) evs) e"
      by (simp add: whisper_run_def)
    then show ?case
      using snoc.IH assms
        whisper_unaccepted_step [of "whisper_run (createWhisperService rate callback lang) evs" e]
      by simp
  qed
  then show ?thesis by (simp add: isListening_def)
qed
text \<open>
  Claim C7. In the Nano, Whisper and Google adapters a transcription request that fails (the
  request or the parsing throws, or the response is not 2xx) is not fatal: the failure is logged
  with \<^verbatim>\<open>console.error\<close>, \<^verbatim>\<open>isListening()\<close> is what it was, the transcript accumulated so
  far and the audio buffered meanwhile are unchanged, nothing is passed to
  \<^verbatim>\<open>onTranscriptUpdate\<close> (the Google adapter, when it is listening, starts its recorder again,
  as it does after a success), and the response of the next utterance extends the transcript and
  reaches the caller exactly as it would have without the failure.
\<close>

theorem transcription_failure_not_fatal:
  assumes "r = Threw \<or> r = NotOk"
  shows "isListening (nano_finalizeSentence_resume r n) = isListening n
    \<and> currentSentence (nano_finalizeSentence_resume r n) = currentSentence n
    \<and> audioChunks (nano_finalizeSentence_resume r n) = audioChunks n
    \<and> effects (nano_finalizeSentence_resume r n) = effects n @ [ConsoleError]
    \<and> currentSentence (nano_finalizeSentence_resume (Body t) (nano_finalizeSentence_resume r n))
        = currentSentence (nano_finalizeSentence_resume (Body t) n)
    \<and> transcript_updates (effects (nano_finalizeSentence_resume (Body t) (nano_finalizeSentence_resume r n)))
        = transcript_updates (effects (nano_finalizeSentence_resume (Body t) n))
    \<and> isListening (whisper_finalizeSentence_resume r w) = isListening w
    \<and> currentSentence (whisper_finalizeSentence_resume r w) = currentSentence w
    \<and> audioChunks (whisper_finalizeSentence_resume r w) = audioChunks w
    \<and> effects (whisper_finalizeSentence_resume r w) = effects w @ [ConsoleError]
    \<and> currentSentence (whisper_finalizeSentence_resume (Body t) (whisper_finalizeSentence_resume r w))
        = currentSentence (whisper_finalizeSentence_resume (Body t) w)
    \<and> transcript_updates (effects (whisper_finalizeSentence_resume (Body t) (whisper_finalizeSentence_resume r w)))
        = transcript_updates (effects (whisper_finalizeSentence_resume (Body t) w))
    \<and> isListening (google_finalizeSentence_resume r g) = isListening g
    \<and> currentSentence (google_finalizeSentence_resume r g) = currentSentence g
    \<and> recordedChunks (google_finalizeSentence_resume r g) = recordedChunks g
    \<and> transcript_updates (effects (google_finalizeSentence_resume r g)) = transcript_updates (effects g)
    \<and> effects (google_finalizeSentence_resume r g)
        = effects g @ [ConsoleError]
          @ (if isCurrentlyListening g \<and> mediaRecorder g \<noteq> None \<and> mediaStream g
             then [RecorderStart] else [])
    \<and> currentSentence (google_finalizeSentence_resume (Body t) (google_finalizeSentence_resume r g))
        = currentSentence (google_finalizeSentence_resume (Body t) g)
    \<and> transcript_updates (effects (google_finalizeSentence_resume (Body t) (google_finalizeSentence_resume r g)))
        = transcript_updates (effects (google_finalizeSentence_resume (Body t) g))"
proof -
  note f = on_response_failure[OF assms]
  have nano: "isListening (nano_finalizeSentence_resume r n) = isListening n
    \<and> currentSentence (nano_finalizeSentence_resume r n) = currentSentence n
    \<and> audioChunks (nano_finalizeSentence_resume r n) = audioChunks n
    \<and> effects (nano_finalizeSentence_resume r n) = effects n @ [ConsoleError]
    \<and> currentSentence (nano_finalizeSentence_resume (Body t) (nano_finalizeSentence_resume r n))
        = currentSentence (nano_finalizeSentence_resume (Body t) n)
    \<and> transcript_updates (effects (nano_finalizeSentence_resume (Body t) (nano_finalizeSentence_resume r n)))
        = transcript_updates (effects (nano_finalizeSentence_resume (Body t) n))"
    by (simp add: nano_finalizeSentence_resume_def f capture_defs on_response_Body Let_def)
  have whisper: "isListening (whisper_finalizeSentence_resume r w) = isListening w
    \<and> currentSentence (whisper_finalizeSentence_resume r w) = currentSentence w
    \<and> audioChunks (whisper_finalizeSentence_resume r w) = audioChunks w
    \<and> effects (whisper_finalizeSentence_resume r w) = effects w @ [ConsoleError]
    \<and> currentSentence (whisper_finalizeSentence_resume (Body t) (whisper_finalizeSentence_resume r w))
        = currentSentence (whisper_finalizeSentence_resume (Body t) w)
    \<and> transcript_updates (effects (whisper_finalizeSentence_resume (Body t) (whisper_finalizeSentence_resume r w)))
        = transcript_updates (effects (whisper_finalizeSentence_resume (Body t) w))"
    by (simp add: whisper_finalizeSentence_resume_def f capture_defs on_response_Body Let_def)
  have google: "isListening (google_finalizeSentence_resume r g) = isListening g
    \<and> currentSentence (google_finalizeSentence_resume r g) = currentSentence g
    \<and> recordedChunks (google_finalizeSentence_resume r g) = recordedChunks g
    \<and> transcript_updates (effects (google_finalizeSentence_resume r g)) = transcript_updates (effects g)
    \<and> effects (google_finalizeSentence_resume r g)
        = effects g @ [ConsoleError]
          @ (if isCurrentlyListening g \<and> mediaRecorder g \<noteq> None \<and> mediaStream g
             then [RecorderStart] else [])
    \<and> currentSentence (google_finalizeSentence_resume (Body t) (google_finalizeSentence_resume r g))
        = currentSentence (google_finalizeSentence_resume (Body t) g)
    \<and> transcript_updates (effects (google_finalizeSentence_resume (Body t) (google_finalizeSentence_resume r g)))
        = transcript_updates (effects (google_finalizeSentence_resume (Body t) g))"
    by (simp add: google_finalizeSentence_resume_def google_startRecording_def f capture_defs
        on_response_Body Let_def)
  from nano whisper google show ?thesis
    by blast
qed

theorem transcription_failure_not_fatal_witness:
  "isListening (nano_finalizeSentence_resume NotOk
      (snd (nano_start_resume True (snd (nano_start (createAssemblyAINanoService 16000 False))))))
   \<and> effects (nano_finalizeSentence_resume NotOk
        (snd (nano_start_resume True (snd (nano_start (createAssemblyAINanoService 16000 False))))))
       = [GetUserMedia, CreateAudioContext, ConsoleError]
   \<and> transcript_updates (effects (nano_finalizeSentence_resume (Body ''world'')
        (nano_finalizeSentence_resume NotOk
          ((createAssemblyAINanoService 16000 False)\<lparr>currentSentence := ''hello ''\<rparr>))))
       = [''hello world'']"
proof -
  have "transcript_updates (effects (nano_finalizeSentence_resume (Body ''world'')
        ((createAssemblyAINanoService 16000 False)\<lparr>currentSentence := ''hello ''\<rparr>)))
       = [''hello world'']"
    by (simp add: nano_finalizeSentence_resume_def on_response_def createAssemblyAINanoService_def
        capture_defs trim_def is_space_def Let_def)
  then show ?thesis
    using transcription_failure_not_fatal [of NotOk
        "snd (nano_start_resume True (snd (nano_start (createAssemblyAINanoService 16000 False))))"
        "''world''" "createWhisperService 16000 False ''en''" "createGoogleSpeechService ''en-US''"]
      transcription_failure_not_fatal [of NotOk
        "(createAssemblyAINanoService 16000 False)\<lparr>currentSentence := ''hello ''\<rparr>"
        "''world''" "createWhisperService 16000 False ''en''" "createGoogleSpeechService ''en-US''"]
    by (simp add: nano_start_def nano_start_resume_def createAssemblyAINanoService_def
        capture_defs Let_def)
qed

text \<open>
  Claim C3 (as amended). No adapter cancels a transcription request: \<^verbatim>\<open>stop()\<close> of the Nano,
  Whisper and Google adapters leaves every request in flight, and when a response that carries
  text arrives after \<^verbatim>\<open>stop()\<close>, the text is appended to the transcript and passed to
  \<^verbatim>\<open>onTranscriptUpdate\<close> although \<^verbatim>\<open>isListening()\<close> is false. This is how the utterance that
  the Whisper adapter finalises in \<^verbatim>\<open>stop()\<close> reaches the caller.
\<close>

theorem response_after_stop_updates_transcript:
  assumes "t \<noteq> []"
  shows "\<not> isListening (nano_stop n)
    \<and> pendingFetches n \<le> pendingFetches (nano_stop n)
    \<and> \<not> isListening (nano_finalizeSentence_resume (Body t) (nano_stop n))
    \<and> effects (nano_finalizeSentence_resume (Body t) (nano_stop n))
        = effects (nano_stop n) @ [TranscriptUpdate (trim (currentSentence n @ t @ '' ''))]
    \<and> \<not> isListening (whisper_stop w)
    \<and> pendingFetches w \<le> pendingFetches (whisper_stop w)
    \<and> \<not> isListening (whisper_finalizeSentence_resume (Body t) (whisper_stop w))
    \<and> effects (whisper_finalizeSentence_resume (Body t) (whisper_stop w))
        = effects (whisper_stop w) @ [TranscriptUpdate (trim (currentSentence w @ t @ '' ''))]
    \<and> \<not> isListening (google_stop g)
    \<and> pendingFetches g \<le> pendingFetches (google_stop g)
    \<and> \<not> isListening (google_finalizeSentence_resume (Body t) (google_stop g))
    \<and> effects (google_finalizeSentence_resume (Body t) (google_stop g))
        = effects (google_stop g) @ [TranscriptUpdate (trim (currentSentence g @ t @ '' ''))]"
proof -
  note r = on_response_text[OF assms]
  have nano: "\<not> isListening (nano_stop n)
    \<and> pendingFetches n \<le> pendingFetches (nano_stop n)
    \<and> \<not> isListening (nano_finalizeSentence_resume (Body t) (nano_stop n))
    \<and> effects (nano_finalizeSentence_resume (Body t) (nano_stop n))
        = effects (nano_stop n) @ [TranscriptUpdate (trim (currentSentence n @ t @ '' ''))]"
    by (simp add: nano_stop_def nano_finalizeSentence_def nano_finalizeSentence_resume_def r
        capture_defs Let_def)
  have whisper: "\<not> isListening (whisper_stop w)
    \<and> pendingFetches w \<le> pendingFetches (whisper_stop w)
    \<and> \<not> isListening (whisper_finalizeSentence_resume (Body t) (whisper_stop w))
    \<and> effects (whisper_finalizeSentence_resume (Body t) (whisper_stop w))
        = effects (whisper_stop w) @ [TranscriptUpdate (trim (currentSentence w @ t @ '' ''))]"
    by (simp add: whisper_stop_def whisper_finalizeSentence_def whisper_finalizeSentence_resume_def r
        capture_defs Let_def)
  have google: "\<not> isListening (google_stop g)
    \<and> pendingFetches g \<le> pendingFetches (google_stop g)
    \<and> \<not> isListening (google_finalizeSentence_resume (Body t) (google_stop g))
    \<and> effects (google_finalizeSentence_resume (Body t) (google_stop g))
        = effects (google_stop g) @ [TranscriptUpdate (trim (currentSentence g @ t @ '' ''))]"
    by (simp add: google_stop_def google_finalizeSentence_def google_finalizeSentence_resume_def r
        capture_defs Let_def)
  from nano whisper google show ?thesis
    by blast
qed

theorem response_after_stop_updates_transcript_witness:
  "effects (whisper_finalizeSentence_resume (Body ''hello'')
      (whisper_stop (createWhisperService 16000 False ''en'')))
     = [TranscriptUpdate ''hello'']
   \<and> \<not> isListening (whisper_finalizeSentence_resume (Body ''hello'')
      (whisper_stop (createWhisperService 16000 False ''en'')))"
  using response_after_stop_updates_transcript [of "''hello''"
      "createAssemblyAINanoService 16000 False" "createWhisperService 16000 False ''en''"
      "createGoogleSpeechService ''en-US''"]
  by (simp add: whisper_stop_def createWhisperService_def trim_def is_space_def)

text \<open>The claim as stated fails. The Nano adapter is started, hears a loud frame and two silent
  ones 1999 ms apart, which finalises the utterance and dispatches the request; then it is
  stopped. The request is still in flight, and its response reaches \<^verbatim>\<open>onTranscriptUpdate\<close>
  after the adapter has been torn down.\<close>

theorem late_response_counterexample:
  "\<not> isListening (nano_run (createAssemblyAINanoService 16000 False)
       [Start, Media True, Audio (replicate 4096 (1 / 2)) 0, Audio (replicate 4096 0) 1,
        Audio (replicate 4096 0) 2000, Stop])
   \<and> pendingFetches (nano_run (createAssemblyAINanoService 16000 False)
       [Start, Media True, Audio (replicate 4096 (1 / 2)) 0, Audio (replicate 4096 0) 1,
        Audio (replicate 4096 0) 2000, Stop]) = 1
   \<and> transcript_updates (effects (nano_run (createAssemblyAINanoService 16000 False)
       [Start, Media True, Audio (replicate 4096 (1 / 2)) 0, Audio (replicate 4096 0) 1,
        Audio (replicate 4096 0) 2000, Stop])) = []
   \<and> transcript_updates (effects (nano_run (createAssemblyAINanoService 16000 False)
       [Start, Media True, Audio (replicate 4096 (1 / 2)) 0, Audio (replicate 4096 0) 1,
        Audio (replicate 4096 0) 2000, Stop, Response (Body ''hello'')])) = [''hello'']"
  by (simp add: nano_run_def nano_start_def nano_start_resume_def nano_processAudioData_def
      nano_finalizeSentence_def nano_finalizeSentence_resume_def nano_stop_def on_response_def
      calculateVolume_half calculateVolume_zero threshold_values exceeds_def createAssemblyAINanoService_def capture_defs
      trim_def is_space_def Let_def)

section \<open>Stopping with an utterance in flight\<close>

lemma nano_stop_requests: "requests (effects (nano_stop n)) = requests (effects n)"
  by (simp add: nano_stop_def nano_finalizeSentence_def capture_defs Let_def)

lemma nano_stop_audioChunks: "isCurrentlyListening n \<Longrightarrow> audioChunks (nano_stop n) = []"
  by (simp add: nano_stop_def nano_finalizeSentence_def capture_defs Let_def)

text \<open>The Whisper adapter finalises before it resets: the buffered frames are encoded and
  dispatched.\<close>

lemma whisper_stop_dispatches:
  "isCurrentlyListening w \<Longrightarrow> audioChunks w \<noteq> [] \<Longrightarrow>
   requests (effects (whisper_stop w))
     = requests (effects w) @ [Wav (float32ToWav (concat (audioChunks w)) (sampleRate w))]"
  by (simp add: whisper_stop_def whisper_finalizeSentence_def capture_defs Let_def)

text \<open>
  Claim C2: \<^verbatim>\<open>stop()\<close> with an utterance in flight (frames buffered, speaking) encodes and
  dispatches the buffered frames before the state is reset, and discards no audio. On the Nano
  adapter this fails: \<^verbatim>\<open>stop()\<close> clears \<^verbatim>\<open>audioChunks\<close> before it calls
  \<^verbatim>\<open>finalizeSentence()\<close>, which returns at once on an empty buffer: the frame buffered while
  the user was speaking is dropped and no request is dispatched.
\<close>

theorem nano_stop_discards_utterance:
  "isListening (nano_run (createAssemblyAINanoService 16000 False)
       [Start, Media True, Audio (replicate 4096 (1 / 2)) 0])
   \<and> isSpeaking (nano_run (createAssemblyAINanoService 16000 False)
       [Start, Media True, Audio (replicate 4096 (1 / 2)) 0])
   \<and> audioChunks (nano_run (createAssemblyAINanoService 16000 False)
       [Start, Media True, Audio (replicate 4096 (1 / 2)) 0]) = [replicate 4096 (1 / 2)]
   \<and> audioChunks (nano_run (createAssemblyAINanoService 16000 False)
       [Start, Media True, Audio (replicate 4096 (1 / 2)) 0, Stop]) = []
   \<and> effects (nano_run (createAssemblyAINanoService 16000 False)
       [Start, Media True, Audio (replicate 4096 (1 / 2)) 0, Stop])
       = [GetUserMedia, CreateAudioContext, StopTracks, CloseAudioContext]
   \<and> pendingFetches (nano_run (createAssemblyAINanoService 16000 False)
       [Start, Media True, Audio (replicate 4096 (1 / 2)) 0, Stop]) = 0"
  by (simp add: nano_run_def nano_start_def nano_start_resume_def nano_processAudioData_def
      nano_finalizeSentence_def nano_stop_def calculateVolume_half calculateVolume_zero threshold_values exceeds_def
      createAssemblyAINanoService_def capture_defs Let_def)

section \<open>The size of the frame buffer\<close>

text \<open>The Whisper adapter has a fail-safe: a frame that makes the buffer exceed 50 frames forces
  finalisation, so its buffer holds at most 50 frames after every event.\<close>

lemma whisper_finalizeSentence_empties: "audioChunks (whisper_finalizeSentence w) = []"
  by (simp add: whisper_finalizeSentence_def capture_defs Let_def)

lemma whisper_step_bound:
  assumes "length (audioChunks w) \<le> 50"
  shows "length (audioChunks (whisper_step w ev)) \<le> 50"
proof (cases ev)
  case Start
  then show ?thesis
    using assms
    by (simp add: whisper_start_def capture_defs)
next
  case (Media granted)
  then show ?thesis
    using assms
    by (simp add: whisper_start_resume_def capture_defs Let_def)
next
  case (Audio inputData now)
  then show ?thesis
    using assms
    by (simp add: whisper_processAudioData_def whisper_finalizeSentence_empties Let_def
        split: option.split)
next
  case (Response r)
  then show ?thesis
    using assms
    by (cases r) (simp_all add: whisper_finalizeSentence_resume_def on_response_def
        capture_defs Let_def)
next
  case Stop
  then show ?thesis
    using assms
    by (simp add: whisper_stop_def whisper_finalizeSentence_def capture_defs Let_def)
next
  case Timer
  then show ?thesis
    using assms
    by (simp add: whisper_timer_def whisper_finalizeSentence_empties Let_def)
qed

lemma whisper_run_bound:
  "length (audioChunks w) \<le> 50 \<Longrightarrow> length (audioChunks (whisper_run w evs)) \<le> 50"
  unfolding whisper_run_def
  by (induction evs arbitrary: w) (simp_all add: whisper_step_bound)

lemma whisper_forced_finalize:
  assumes "length (audioChunks w) = 50"
  shows "audioChunks (whisper_processAudioData inputData now w) = []
    \<and> requests (effects (whisper_processAudioData inputData now w))
        = requests (effects w)
          @ [Wav (float32ToWav (concat (audioChunks w @ [inputData])) (sampleRate w))]"
proof -
  have "audioChunks w @ [inputData] \<noteq> []" by simp
  then show ?thesis
    using assms
    by (simp add: whisper_processAudioData_def whisper_finalizeSentence_def capture_defs Let_def)
qed

text \<open>Below the cap the Whisper adapter keeps every frame while the user keeps speaking, once
  the three-second timer, which is set once in \<^verbatim>\<open>start\<close>, has fired: 50 frames of 4096
  samples are 12.8 seconds of audio at 16 kHz.\<close>

lemma whisper_loud_frames:
  "processor w \<Longrightarrow> bufferSize w = 4096 \<Longrightarrow> length (audioChunks w) + length ts \<le> 50 \<Longrightarrow>
   length (audioChunks (whisper_run w (map (\<lambda>t. Audio (replicate 4096 (1 / 2)) t) ts)))
     = length (audioChunks w) + length ts
   \<and> requests (effects (whisper_run w (map (\<lambda>t. Audio (replicate 4096 (1 / 2)) t) ts)))
     = requests (effects w)
   \<and> processor (whisper_run w (map (\<lambda>t. Audio (replicate 4096 (1 / 2)) t) ts))
   \<and> bufferSize (whisper_run w (map (\<lambda>t. Audio (replicate 4096 (1 / 2)) t) ts)) = 4096
   \<and> timerArmed (whisper_run w (map (\<lambda>t. Audio (replicate 4096 (1 / 2)) t) ts)) = timerArmed w"
  unfolding whisper_run_def
proof (induction ts arbitrary: w)
  case Nil
  then show ?case by simp
next
  case (Cons t ts)
  let ?w' = "whisper_step w (Audio (replicate 4096 (1 / 2)) t)"
  have step: "processor ?w' \<and> bufferSize ?w' = 4096
      \<and> length (audioChunks ?w') = length (audioChunks w) + 1
      \<and> requests (effects ?w') = requests (effects w)
      \<and> timerArmed ?w' = timerArmed w"
    using Cons.prems
    by (simp add: whisper_processAudioData_def calculateVolume_half threshold_values exceeds_def
        delivers_def Let_def)
  then show ?case
    using Cons.IH[of ?w'] Cons.prems by simp
qed

text \<open>The Nano adapter has no such check: it keeps every frame while the user keeps speaking.\<close>

lemma nano_loud_frames:
  "processor n \<Longrightarrow> bufferSize n = 4096 \<Longrightarrow>
   length (audioChunks (nano_run n (map (\<lambda>t. Audio (replicate 4096 (1 / 2)) t) ts)))
     = length (audioChunks n) + length ts
   \<and> requests (effects (nano_run n (map (\<lambda>t. Audio (replicate 4096 (1 / 2)) t) ts)))
     = requests (effects n)"
  unfolding nano_run_def
proof (induction ts arbitrary: n)
  case Nil
  then show ?case by simp
next
  case (Cons t ts)
  let ?n' = "nano_step n (Audio (replicate 4096 (1 / 2)) t)"
  have step: "processor ?n' \<and> bufferSize ?n' = 4096
      \<and> length (audioChunks ?n') = length (audioChunks n) + 1
      \<and> requests (effects ?n') = requests (effects n)"
    using Cons.prems
    by (simp add: nano_processAudioData_def calculateVolume_half threshold_values exceeds_def
        delivers_def Let_def)
  then show ?case
    using Cons.IH[of ?n'] by simp
qed

lemma nano_run_append: "nano_run n (xs @ ys) = nano_run (nano_run n xs) ys"
  by (simp add: nano_run_def)

text \<open>The Google adapter appends every frame to its float buffer, whatever the volume, and
  finalising an utterance does not clear it.\<close>

lemma google_chunks_grow:
  "googleChunks (google_processAudioData frame now g) = googleChunks g @ [frame]"
  by (simp add: google_processAudioData_def google_finalizeSentence_def capture_defs Let_def
      split: option.split)

text \<open>
  Claim C8: every adapter that buffers audio has a cap on the buffered audio (a frame count or
  a duration, of the order of 1 to 3 seconds) beyond which finalisation is forced although no
  silence has been detected, so that the frame buffer never grows beyond that bound while the
  adapter listens. The Nano and Google adapters have no cap. A started Nano adapter that
  hears loud frames of 4096 samples keeps all of them, however many, and dispatches no request
  (200 frames are 51.2 seconds at 16 kHz); the Google adapter appends every frame to
  \<^verbatim>\<open>audioChunks\<close>, which only \<^verbatim>\<open>stop()\<close> clears.
\<close>

theorem nano_buffer_unbounded:
  "length (audioChunks (nano_run (createAssemblyAINanoService 16000 False)
      ([Start, Media True] @ map (\<lambda>t. Audio (replicate 4096 (1 / 2)) t) ts)))
     = length ts
   \<and> requests (effects (nano_run (createAssemblyAINanoService 16000 False)
      ([Start, Media True] @ map (\<lambda>t. Audio (replicate 4096 (1 / 2)) t) ts)))
     = []
   \<and> isListening (nano_run (createAssemblyAINanoService 16000 False) [Start, Media True])
   \<and> googleChunks (google_processAudioData frame now g) = googleChunks g @ [frame]
   \<and> length (audioChunks (whisper_run (createWhisperService 16000 False ''en'')
      ([Start, Media True]
       @ map (\<lambda>t. Audio (replicate 4096 (1 / 2)) t) (map (\<lambda>k. 256 * int k) [0 ..< 11])
       @ [Timer]
       @ map (\<lambda>t. Audio (replicate 4096 (1 / 2)) t) (map (\<lambda>k. 256 * int k) [12 ..< 62]))))
     = 50"
proof -
  let ?n = "nano_run (createAssemblyAINanoService 16000 False) [Start, Media True]"
  have n: "processor ?n \<and> bufferSize ?n = 4096 \<and> audioChunks ?n = []
      \<and> requests (effects ?n) = [] \<and> isListening ?n"
    by (simp add: nano_run_def nano_start_def nano_start_resume_def
        createAssemblyAINanoService_def capture_defs Let_def)
  then have nano: "length (audioChunks (nano_run (createAssemblyAINanoService 16000 False)
      ([Start, Media True] @ map (\<lambda>t. Audio (replicate 4096 (1 / 2)) t) ts))) = length ts
    \<and> requests (effects (nano_run (createAssemblyAINanoService 16000 False)
      ([Start, Media True] @ map (\<lambda>t. Audio (replicate 4096 (1 / 2)) t) ts))) = []"
    using nano_loud_frames[of ?n ts]
    by (simp only: nano_run_append) simp
  let ?w1 = "whisper_run (createWhisperService 16000 False ''en'') [Start, Media True]"
  let ?w2 = "whisper_run ?w1
      (map (\<lambda>t. Audio (replicate 4096 (1 / 2)) t) (map (\<lambda>k. 256 * int k) [0 ..< 11]))"
  let ?w3 = "whisper_run ?w2 [Timer]"
  let ?w4 = "whisper_run ?w3
      (map (\<lambda>t. Audio (replicate 4096 (1 / 2)) t) (map (\<lambda>k. 256 * int k) [12 ..< 62]))"
  have w1: "processor ?w1 \<and> bufferSize ?w1 = 4096 \<and> audioChunks ?w1 = [] \<and> timerArmed ?w1"
    by (simp add: whisper_run_def whisper_start_def whisper_start_resume_def
        createWhisperService_def capture_defs Let_def)
  have w2: "processor ?w2 \<and> bufferSize ?w2 = 4096 \<and> length (audioChunks ?w2) = 11 \<and> timerArmed ?w2"
    using whisper_loud_frames[of ?w1 "map (\<lambda>k. 256 * int k) [0 ..< 11]"] w1 by simp
  then have "audioChunks ?w2 \<noteq> []" by auto
  then have w3: "processor ?w3 \<and> bufferSize ?w3 = 4096 \<and> audioChunks ?w3 = []"
    using w2
    by (simp add: whisper_run_def whisper_timer_def whisper_finalizeSentence_def emit_def Let_def)
  have w4: "length (audioChunks ?w4) = 50"
    using whisper_loud_frames[of ?w3 "map (\<lambda>k. 256 * int k) [12 ..< 62]"] w3 by simp
  have "whisper_run (createWhisperService 16000 False ''en'')
      ([Start, Media True]
       @ map (\<lambda>t. Audio (replicate 4096 (1 / 2)) t) (map (\<lambda>k. 256 * int k) [0 ..< 11])
       @ [Timer]
       @ map (\<lambda>t. Audio (replicate 4096 (1 / 2)) t) (map (\<lambda>k. 256 * int k) [12 ..< 62]))
    = ?w4"
    by (simp only: whisper_run_def foldl_append)
  with w4 have whisper: "length (audioChunks (whisper_run (createWhisperService 16000 False ''en'')
      ([Start, Media True]
       @ map (\<lambda>t. Audio (replicate 4096 (1 / 2)) t) (map (\<lambda>k. 256 * int k) [0 ..< 11])
       @ [Timer]
       @ map (\<lambda>t. Audio (replicate 4096 (1 / 2)) t) (map (\<lambda>k. 256 * int k) [12 ..< 62])))) = 50"
    by (simp only:)
  from n nano whisper google_chunks_grow[of frame now g] show ?thesis
    by blast
qed

section \<open>Starting an adapter that is listening\<close>

text \<open>
  Claim C10. For the six adapters (Nano, Whisper, Google, Realtime, AssemblyAI, Web Speech),
  \<^verbatim>\<open>start()\<close> on an adapter that is listening resolves at once and changes nothing: no
  microphone is requested, no audio context is created, no recogniser is started, the
  transcript and every other variable are what they were.
\<close>

theorem start_while_listening_is_noop:
  "(isListening n \<longrightarrow> nano_start n = (Resolved, n))
   \<and> (isListening w \<longrightarrow> whisper_start w = (Resolved, w))
   \<and> (isListening g \<longrightarrow> google_start g = (Resolved, g))
   \<and> (isListening r \<longrightarrow> realtime_start r = (Resolved, r))
   \<and> (isListening a \<longrightarrow> assemblyai_start a = (Resolved, a))
   \<and> (webspeech_isListening ws \<longrightarrow> webspeech_start supported ws = (Resolved, ws))"
  by (simp add: nano_start_def whisper_start_def google_start_def realtime_start_def
      assemblyai_start_def isListening_def webspeech_start_def webspeech_isListening_def)

theorem start_while_listening_is_noop_witness:
  "isListening (snd (nano_start_resume True (snd (nano_start (createAssemblyAINanoService 16000 False)))))
   \<and> nano_start (snd (nano_start_resume True (snd (nano_start (createAssemblyAINanoService 16000 False)))))
       = (Resolved, snd (nano_start_resume True (snd (nano_start (createAssemblyAINanoService 16000 False)))))
   \<and> effects (snd (nano_start (snd (nano_start_resume True
        (snd (nano_start (createAssemblyAINanoService 16000 False)))))))
       = [GetUserMedia, CreateAudioContext]
   \<and> fst (nano_start (createAssemblyAINanoService 16000 False)) = Pending
   \<and> webspeech_isListening (webspeech_run (createWebSpeechService False) [WsStart True, RecStart])
   \<and> webspeech_run (createWebSpeechService False) [WsStart True, RecStart, WsStart True]
       = webspeech_run (createWebSpeechService False) [WsStart True, RecStart]
   \<and> ws_effects (webspeech_run (createWebSpeechService False) [WsStart True, RecStart, WsStart True])
       = [RecognitionStart]"
proof -
  let ?n = "snd (nano_start_resume True (snd (nano_start (createAssemblyAINanoService 16000 False))))"
  have l: "isListening ?n"
    by (simp add: nano_start_def nano_start_resume_def createAssemblyAINanoService_def
        capture_defs Let_def)
  have e: "effects ?n = [GetUserMedia, CreateAudioContext]"
    by (simp add: nano_start_def nano_start_resume_def createAssemblyAINanoService_def
        capture_defs Let_def)
  have p: "fst (nano_start (createAssemblyAINanoService 16000 False)) = Pending"
    by (simp add: nano_start_def createAssemblyAINanoService_def)
  let ?ws = "webspeech_run (createWebSpeechService False) [WsStart True, RecStart]"
  have wl: "webspeech_isListening ?ws" and we: "ws_effects ?ws = [RecognitionStart]"
    by (simp_all add: webspeech_run_def webspeech_start_def webspeech_onstart_def
        webspeech_isListening_def createWebSpeechService_def ws_emit_def Let_def)
  have wr: "webspeech_run (createWebSpeechService False) [WsStart True, RecStart, WsStart True]
      = snd (webspeech_start True ?ws)"
    by (simp add: webspeech_run_def)
  from l wl have "nano_start ?n = (Resolved, ?n) \<and> webspeech_start True ?ws = (Resolved, ?ws)"
    using start_while_listening_is_noop [of ?n "createWhisperService 16000 False ''en''"
        "createGoogleSpeechService ''en-US''" createRealtimeService "createAssemblyAIService ''key''"
        ?ws True]
    by blast
  with l e p wl we wr show ?thesis by simp
qed

section \<open>The orchestrator\<close>

lemmas orch_defs = orch_start_def await_adapter_start_def await_fallback_start_def
  start_resolved_def start_rejected_def settle_def createService_def startDurationTracking_def
  notify_def service_start_def service_settle_def orch_isListening_def getApi_def

lemma adapter_starts_append [simp]:
  "adapter_starts (xs @ ys) = adapter_starts xs @ adapter_starts ys"
  by (induction xs rule: adapter_starts.induct) simp_all

lemma start_results_append [simp]:
  "start_results (xs @ ys) = start_results xs @ start_results ys"
  by (induction xs rule: start_results.induct) simp_all

lemma orch_run_append: "orch_run s (xs @ ys) = orch_run (orch_run s xs) ys"
  by (simp add: orch_run_def)

lemma orch_run_snoc: "orch_run s (xs @ [e]) = orch_step (orch_run s xs) e"
  by (simp add: orch_run_def)

text \<open>The list of suspended calls.\<close>

lemma take_awaiting_count:
  "take_awaiting i xs = Some (ph, rest) \<Longrightarrow>
   count_list (map fst xs) k = count_list (map fst rest) k + (if k = i then 1 else 0)"
  by (induction xs arbitrary: ph rest) (auto split: if_splits option.splits prod.splits)

lemma take_awaiting_None: "take_awaiting i xs = None \<Longrightarrow> count_list (map fst xs) i = 0"
  by (induction xs) (auto split: if_splits option.splits prod.splits)

lemma take_awaiting_append:
  "map_option fst (take_awaiting j xs) = Some p \<Longrightarrow>
   map_option fst (take_awaiting j (xs @ ys)) = Some p"
  by (induction xs) (auto split: if_splits option.splits prod.splits)

lemma take_awaiting_fresh:
  "count_list (map fst xs) j = 0 \<Longrightarrow> take_awaiting j (xs @ [(j, ph)]) = Some (ph, xs)"
  by (induction xs) (auto split: if_splits option.splits prod.splits)

lemma take_awaiting_other:
  "i \<noteq> j \<Longrightarrow> take_awaiting i xs = Some (ph, rest) \<Longrightarrow>
   map_option fst (take_awaiting j rest) = map_option fst (take_awaiting j xs)"
  by (induction xs arbitrary: ph rest) (auto split: if_splits option.splits prod.splits)

text \<open>Every operation of the orchestrator keeps a consistent state consistent.\<close>

lemmas inv_defs = consistent_def fallback_pending_def awaited_phase_def

lemma consistent_start_resolved: "consistent s \<Longrightarrow> consistent (start_resolved now s)"
  by (simp add: inv_defs start_resolved_def startDurationTracking_def notify_def)

lemma consistent_notify: "consistent s \<Longrightarrow> consistent (notify ns s)"
  by (simp add: inv_defs notify_def)

lemma consistent_await_fallback_start:
  "consistent s \<Longrightarrow> consistent (await_fallback_start now s)"
  by (auto simp add: inv_defs await_fallback_start_def start_resolved_def
      startDurationTracking_def notify_def service_start_def Let_def nth_list_update
      split: option.splits)

lemma consistent_start_rejected:
  assumes c: "consistent s"
  shows "consistent (start_rejected ph now s)"
proof (cases ph)
  case Fallback
  then show ?thesis using c by (simp add: start_rejected_def consistent_notify)
next
  case First
  have "consistent ((snd (createService WebSpeech (notify [LogError] s\<lparr>currentApi := WebSpeech\<rparr>)))
      \<lparr>currentService := Some (length (services s))\<rparr>)"
    using c by (auto simp add: inv_defs createService_def notify_def nth_append)
  then have "consistent (await_fallback_start now
      (notify (if withTranscriptionStart s then [NotifyTranscriptionStart] else [])
        ((snd (createService WebSpeech (notify [LogError] s\<lparr>currentApi := WebSpeech\<rparr>)))
           \<lparr>currentService := Some (length (services s))\<rparr>)))"
    by (intro consistent_await_fallback_start consistent_notify)
  then show ?thesis
    using First c
    by (simp add: start_rejected_def Let_def createService_def notify_def consistent_notify
        inv_defs)
qed

lemma consistent_await_adapter_start:
  assumes c: "consistent s"
  shows "consistent (await_adapter_start now s)"
proof (cases "currentService s")
  case None
  then show ?thesis using c by (simp add: await_adapter_start_def)
next
  case (Some i)
  then have i: "i < length (services s)" using c by (simp add: consistent_def)
  show ?thesis
  proof (cases "fst (service_start (services s ! i))")
    case Resolved
    then have "listening (services s ! i)" by (auto simp add: service_start_def split: if_splits)
    then show ?thesis
      using Some c i
      by (simp add: await_adapter_start_def service_start_def Let_def consistent_start_resolved
          consistent_notify)
  next
    case Rejected
    then have r: "service_start (services s ! i) = (Rejected, services s ! i)"
      by (auto simp add: service_start_def split: if_splits)
    have "consistent (start_rejected First now (notify [AdapterStart i] s))"
      using c by (intro consistent_start_rejected consistent_notify)
    then show ?thesis
      using Some r by (simp add: await_adapter_start_def Let_def)
  next
    case Pending
    then show ?thesis
      using Some c i
      by (auto simp add: await_adapter_start_def service_start_def Let_def inv_defs notify_def
          nth_list_update split: if_splits)
  qed
qed

lemma consistent_orch_start: "consistent s \<Longrightarrow> consistent (orch_start now s)"
  unfolding orch_start_def Let_def
  by (intro consistent_await_adapter_start consistent_notify)
     (auto simp add: inv_defs createService_def nth_append split: prod.splits)

lemma consistent_settle:
  assumes c: "consistent s"
  shows "consistent (settle i out now s)"
proof (cases "i < length (services s) \<and> starting (services s ! i) > 0")
  case False
  have "settle i out now s = s" by (simp only: settle_def False if_False)
  then show ?thesis using c by simp
next
  case True
  then have "count_list (map fst (awaiting s)) i > 0" using c by (simp add: consistent_def)
  then obtain ph rest where t: "take_awaiting i (awaiting s) = Some (ph, rest)"
    using take_awaiting_None [of i "awaiting s"] by (cases "take_awaiting i (awaiting s)") auto
  define s2 where "s2 = s\<lparr>services := (services s)[i := snd (service_settle out (services s ! i))],
    awaiting := rest\<rparr>"
  have cnt: "count_list (map fst rest) k
      = (if k < length (services s) then starting (services s ! k) else 0)
        - (if k = i then 1 else 0)" for k
    using take_awaiting_count [OF t, of k] c by (simp add: consistent_def)
  have cur: "\<forall>c. currentService s = Some c \<longrightarrow> c < length (services s)"
    using c by (simp add: consistent_def)
  have c2: "consistent s2"
    unfolding consistent_def s2_def using True cur
    by (cases out) (auto simp add: cnt service_settle_def nth_list_update)
  have "settle i out now s
      = (if fst (service_settle out (services s ! i)) = Resolved then start_resolved now s2
         else start_rejected ph now s2)"
    using True t by (simp add: settle_def s2_def Let_def split: prod.splits)
  then show ?thesis
    using c2 by (simp add: consistent_start_resolved consistent_start_rejected)
qed

lemma consistent_stopDurationTracking:
  "consistent s \<Longrightarrow> consistent (stopDurationTracking now s)"
  by (simp add: inv_defs stopDurationTracking_def notify_def Let_def)

lemma consistent_update:
  "consistent s \<Longrightarrow> starting sv = starting (services s ! i) \<Longrightarrow>
   consistent (s\<lparr>services := (services s)[i := sv]\<rparr>)"
  by (cases "i < length (services s)") (auto simp add: inv_defs nth_list_update)

lemma starting_service_stop [simp]: "starting (service_stop sv) = starting sv"
  by (simp add: service_stop_def)

lemma consistent_stop_current:
  "consistent s \<Longrightarrow>
   consistent (stopDurationTracking now
     (notify [AdapterStop i] (s\<lparr>services := (services s)[i := service_stop (services s ! i)]\<rparr>)))"
  by (intro consistent_stopDurationTracking consistent_notify consistent_update) simp_all

lemma consistent_create_current:
  "consistent s \<Longrightarrow>
   consistent ((snd (createService a s))\<lparr>currentService := Some (fst (createService a s))\<rparr>)"
  by (auto simp add: inv_defs createService_def nth_append)

lemma consistent_currentApi: "consistent s \<Longrightarrow> consistent (s\<lparr>currentApi := a\<rparr>)"
  by (simp add: inv_defs)

lemma consistent_orch_stop: "consistent s \<Longrightarrow> consistent (orch_stop now s)"
  by (auto simp add: orch_stop_def consistent_stop_current split: option.splits)

lemma consistent_changeApi: "consistent s \<Longrightarrow> consistent (changeApi a now s)"
  unfolding changeApi_def Let_def
  by (auto simp add: split_def split: option.splits
      intro!: consistent_create_current consistent_currentApi consistent_stop_current)

lemma consistent_updateLanguage: "consistent s \<Longrightarrow> consistent (updateLanguage now s)"
  unfolding updateLanguage_def Let_def
  by (auto simp add: split_def split: option.splits
      intro!: consistent_create_current consistent_stop_current)

lemma consistent_forceFinalize: "consistent s \<Longrightarrow> consistent (forceFinalize s)"
  unfolding forceFinalize_def
  by (auto split: option.splits intro!: consistent_notify consistent_update)

lemma consistent_step: "consistent s \<Longrightarrow> consistent (orch_step s e)"
proof (cases e)
  case (Tick now)
  assume "consistent s"
  then show ?thesis using Tick by (simp add: duration_tick_def inv_defs notify_def)
qed (auto simp add: consistent_orch_start consistent_orch_stop consistent_changeApi
    consistent_updateLanguage consistent_forceFinalize consistent_settle recognition_end_def
    recognition_error_def transcriber_error_def service_end_def service_error_def
    intro!: consistent_update)

lemma consistent_run: "consistent s \<Longrightarrow> consistent (orch_run s evs)"
  unfolding orch_run_def by (induction evs arbitrary: s) (simp_all add: consistent_step)

lemma consistent_create: "consistent (createSpeechRecognitionService ts du)"
  by (simp add: inv_defs createSpeechRecognitionService_def)

text \<open>In a consistent state a suspended call awaits an existing instance whose \<^verbatim>\<open>start\<close> is
  suspended.\<close>

lemma awaited_phase_starting:
  assumes "consistent s" "awaited_phase i s = Some ph"
  shows "i < length (services s) \<and> 0 < starting (services s ! i)"
proof -
  from assms(2) obtain rest where "take_awaiting i (awaiting s) = Some (ph, rest)"
    by (auto simp add: awaited_phase_def)
  from take_awaiting_count [OF this, of i] have "0 < count_list (map fst (awaiting s)) i" by simp
  then show ?thesis using assms(1) by (simp add: consistent_def split: if_splits)
qed

text \<open>While the fallback adapter has not answered, no operation other than the end of its
  \<^verbatim>\<open>start\<close> changes that: a further \<^verbatim>\<open>start()\<close> on it is rejected at once, \<^verbatim>\<open>stop\<close> finds
  it not listening.\<close>

lemma pending_notify: "fallback_pending j s \<Longrightarrow> fallback_pending j (notify ns s)"
  by (simp add: inv_defs notify_def)

lemma pending_start_resolved: "fallback_pending j s \<Longrightarrow> fallback_pending j (start_resolved now s)"
  by (simp add: inv_defs start_resolved_def startDurationTracking_def notify_def)

lemma pending_stopDurationTracking:
  "fallback_pending j s \<Longrightarrow> fallback_pending j (stopDurationTracking now s)"
  by (simp add: inv_defs stopDurationTracking_def notify_def Let_def)

lemma pending_update:
  "fallback_pending j s \<Longrightarrow> i \<noteq> j \<or> sv = services s ! j \<Longrightarrow>
   fallback_pending j (s\<lparr>services := (services s)[i := sv]\<rparr>)"
  by (cases "i < length (services s)") (auto simp add: inv_defs nth_list_update)

lemma pending_service_stop:
  "fallback_pending j s \<Longrightarrow>
   fallback_pending j (s\<lparr>services := (services s)[i := service_stop (services s ! i)]\<rparr>)"
  by (rule pending_update) (auto simp add: fallback_pending_def service_stop_def)

lemma pending_stop_current:
  "fallback_pending j s \<Longrightarrow>
   fallback_pending j (stopDurationTracking now
     (notify [AdapterStop i] (s\<lparr>services := (services s)[i := service_stop (services s ! i)]\<rparr>)))"
  by (intro pending_stopDurationTracking pending_notify pending_service_stop)

lemma pending_create_current:
  "fallback_pending j s \<Longrightarrow>
   fallback_pending j ((snd (createService a s))\<lparr>currentService := Some (fst (createService a s))\<rparr>)"
  by (auto simp add: inv_defs createService_def nth_append)

lemma pending_currentApi: "fallback_pending j s \<Longrightarrow> fallback_pending j (s\<lparr>currentApi := a\<rparr>)"
  by (simp add: inv_defs)

lemma pending_service_start:
  assumes p: "fallback_pending j s"
  shows "fallback_pending j
      (notify [AdapterStart i] (s\<lparr>services := (services s)[i := snd (service_start (services s ! i))]\<rparr>))"
    "fst (service_start (services s ! i)) = Pending \<Longrightarrow>
     fallback_pending j
      ((notify [AdapterStart i] (s\<lparr>services := (services s)[i := snd (service_start (services s ! i))]\<rparr>))
        \<lparr>awaiting := awaiting s @ [(i, ph)]\<rparr>)"
proof -
  have u: "i \<noteq> j \<or> snd (service_start (services s ! i)) = services s ! j"
    using p by (auto simp add: fallback_pending_def service_start_def)
  have q: "fallback_pending j (s\<lparr>services := (services s)[i := snd (service_start (services s ! i))]\<rparr>)"
    by (rule pending_update [OF p u])
  then show "fallback_pending j
      (notify [AdapterStart i] (s\<lparr>services := (services s)[i := snd (service_start (services s ! i))]\<rparr>))"
    by (rule pending_notify)
  assume "fst (service_start (services s ! i)) = Pending"
  from q have "map_option fst (take_awaiting j (awaiting s)) = Some Fallback"
    by (simp add: inv_defs)
  then have "map_option fst (take_awaiting j (awaiting s @ [(i, ph)])) = Some Fallback"
    by (rule take_awaiting_append)
  with q show "fallback_pending j
      ((notify [AdapterStart i] (s\<lparr>services := (services s)[i := snd (service_start (services s ! i))]\<rparr>))
        \<lparr>awaiting := awaiting s @ [(i, ph)]\<rparr>)"
    by (simp add: inv_defs notify_def)
qed

lemma pending_await_fallback_start:
  assumes p: "fallback_pending j s"
  shows "fallback_pending j (await_fallback_start now s)"
proof (cases "currentService s")
  case None
  then show ?thesis using p by (simp add: await_fallback_start_def)
next
  case (Some i)
  note ps = pending_service_start [OF p, of i]
  show ?thesis
  proof (cases "fst (service_start (services s ! i))")
    case Resolved
    then show ?thesis
      using Some ps(1) by (simp add: await_fallback_start_def split_def Let_def pending_start_resolved)
  next
    case Rejected
    then show ?thesis
      using Some ps(1) by (simp add: await_fallback_start_def split_def Let_def pending_notify)
  next
    case Pending
    then show ?thesis
      using Some ps(2) [OF Pending, of Fallback]
      by (simp add: await_fallback_start_def split_def Let_def notify_def)
  qed
qed

lemma pending_start_rejected:
  assumes p: "fallback_pending j s"
  shows "fallback_pending j (start_rejected ph now s)"
proof (cases ph)
  case Fallback
  then show ?thesis using p by (simp add: start_rejected_def pending_notify)
next
  case First
  have "fallback_pending j ((snd (createService WebSpeech (notify [LogError] s\<lparr>currentApi := WebSpeech\<rparr>)))
      \<lparr>currentService := Some (length (services s))\<rparr>)"
    using p by (auto simp add: inv_defs createService_def notify_def nth_append)
  then have "fallback_pending j (await_fallback_start now
      (notify (if withTranscriptionStart s then [NotifyTranscriptionStart] else [])
        ((snd (createService WebSpeech (notify [LogError] s\<lparr>currentApi := WebSpeech\<rparr>)))
           \<lparr>currentService := Some (length (services s))\<rparr>)))"
    by (intro pending_await_fallback_start pending_notify)
  then show ?thesis
    using First p
    by (simp add: start_rejected_def Let_def createService_def notify_def pending_notify inv_defs)
qed

lemma pending_await_adapter_start:
  assumes p: "fallback_pending j s"
  shows "fallback_pending j (await_adapter_start now s)"
proof (cases "currentService s")
  case None
  then show ?thesis using p by (simp add: await_adapter_start_def)
next
  case (Some i)
  note ps = pending_service_start [OF p, of i]
  show ?thesis
  proof (cases "fst (service_start (services s ! i))")
    case Resolved
    then show ?thesis
      using Some ps(1) by (simp add: await_adapter_start_def split_def Let_def pending_start_resolved)
  next
    case Rejected
    then show ?thesis
      using Some ps(1) by (simp add: await_adapter_start_def split_def Let_def pending_start_rejected)
  next
    case Pending
    then show ?thesis
      using Some ps(2) [OF Pending, of First]
      by (simp add: await_adapter_start_def split_def Let_def notify_def)
  qed
qed

lemma pending_orch_start: "fallback_pending j s \<Longrightarrow> fallback_pending j (orch_start now s)"
  unfolding orch_start_def Let_def
  by (intro pending_await_adapter_start pending_notify)
     (auto simp add: inv_defs createService_def nth_append split: prod.splits)

lemma pending_settle:
  assumes p: "fallback_pending j s" and ij: "i \<noteq> j"
  shows "fallback_pending j (settle i out now s)"
proof (cases "i < length (services s) \<and> starting (services s ! i) > 0")
  case False
  have "settle i out now s = s" by (simp only: settle_def False if_False)
  then show ?thesis using p by simp
next
  case True
  define s1 where "s1 = s\<lparr>services := (services s)[i := snd (service_settle out (services s ! i))]\<rparr>"
  have p1: "fallback_pending j s1"
    unfolding s1_def using ij by (intro pending_update [OF p]) simp
  show ?thesis
  proof (cases "take_awaiting i (awaiting s)")
    case None
    then have "settle i out now s = s1"
      using True by (simp add: settle_def s1_def Let_def split: prod.splits)
    then show ?thesis using p1 by simp
  next
    case (Some a)
    obtain ph rest where a: "a = (ph, rest)" by (cases a)
    have p2: "fallback_pending j (s1\<lparr>awaiting := rest\<rparr>)"
      using p1 take_awaiting_other [OF ij, of "awaiting s" ph rest] Some a
      by (simp add: inv_defs s1_def)
    have "settle i out now s
        = (if fst (service_settle out (services s ! i)) = Resolved
           then start_resolved now (s1\<lparr>awaiting := rest\<rparr>)
           else start_rejected ph now (s1\<lparr>awaiting := rest\<rparr>))"
      using True Some a by (simp add: settle_def s1_def Let_def split: prod.splits)
    then show ?thesis
      using p2 by (simp add: pending_start_resolved pending_start_rejected)
  qed
qed

lemma pending_orch_stop: "fallback_pending j s \<Longrightarrow> fallback_pending j (orch_stop now s)"
  by (auto simp add: orch_stop_def pending_stop_current split: option.splits)

lemma pending_changeApi: "fallback_pending j s \<Longrightarrow> fallback_pending j (changeApi a now s)"
  unfolding changeApi_def Let_def
  by (auto simp add: split_def split: option.splits
      intro!: pending_create_current pending_currentApi pending_stop_current)

lemma pending_updateLanguage: "fallback_pending j s \<Longrightarrow> fallback_pending j (updateLanguage now s)"
  unfolding updateLanguage_def Let_def
  by (auto simp add: split_def split: option.splits
      intro!: pending_create_current pending_stop_current)

lemma pending_forceFinalize: "fallback_pending j s \<Longrightarrow> fallback_pending j (forceFinalize s)"
  unfolding forceFinalize_def
  by (auto split: option.splits intro!: pending_notify pending_service_stop)

lemma pending_step:
  assumes p: "fallback_pending j s" and e: "\<not> settles j e"
  shows "fallback_pending j (orch_step s e)"
proof (cases e)
  case (Tick now)
  then show ?thesis using p by (simp add: duration_tick_def inv_defs notify_def)
next
  case (Settle i out now)
  then show ?thesis using p e by (simp add: pending_settle)
next
  case (RecognitionEnd i)
  show ?thesis
  proof (cases "i = j")
    case True
    then show ?thesis using p RecognitionEnd by (simp add: recognition_end_def fallback_pending_def)
  next
    case False
    then show ?thesis using p RecognitionEnd by (simp add: recognition_end_def pending_update)
  qed
next
  case (RecognitionError i)
  show ?thesis
  proof (cases "i = j")
    case True
    then show ?thesis using p RecognitionError by (simp add: recognition_error_def fallback_pending_def)
  next
    case False
    then show ?thesis using p RecognitionError by (simp add: recognition_error_def pending_update)
  qed
next
  case (TranscriberError i)
  then show ?thesis
    using p by (auto simp add: transcriber_error_def intro!: pending_service_stop)
qed (use p in \<open>simp_all add: pending_orch_start pending_orch_stop pending_changeApi
    pending_updateLanguage pending_forceFinalize\<close>)

lemma pending_run:
  "fallback_pending j s \<Longrightarrow> \<forall>e\<in>set evs. \<not> settles j e \<Longrightarrow> fallback_pending j (orch_run s evs)"
  unfolding orch_run_def by (induction evs arbitrary: s) (simp_all add: pending_step)

text \<open>Only \<^verbatim>\<open>changeApi\<close> moves the selection away from the Web Speech backend.\<close>

lemma currentApi_start_resolved [simp]: "currentApi (start_resolved now s) = currentApi s"
  by (simp add: start_resolved_def startDurationTracking_def notify_def)

lemma currentApi_notify [simp]: "currentApi (notify ns s) = currentApi s"
  by (simp add: notify_def)

lemma currentApi_await_fallback_start [simp]:
  "currentApi (await_fallback_start now s) = currentApi s"
  by (simp add: await_fallback_start_def split_def Let_def split: option.splits status.splits)

lemma currentApi_start_rejected:
  "currentApi s = WebSpeech \<Longrightarrow> currentApi (start_rejected ph now s) = WebSpeech"
  by (cases ph) (simp_all add: start_rejected_def Let_def)

lemma currentApi_await_adapter_start:
  "currentApi s = WebSpeech \<Longrightarrow> currentApi (await_adapter_start now s) = WebSpeech"
  by (simp add: await_adapter_start_def split_def Let_def currentApi_start_rejected
      split: option.splits status.splits)

lemma currentApi_orch_start:
  "currentApi s = WebSpeech \<Longrightarrow> currentApi (orch_start now s) = WebSpeech"
  unfolding orch_start_def Let_def
  by (rule currentApi_await_adapter_start) (simp add: createService_def)

lemma currentApi_settle:
  "currentApi s = WebSpeech \<Longrightarrow> currentApi (settle i out now s) = WebSpeech"
  by (simp add: settle_def split_def Let_def currentApi_start_rejected split: option.splits)

lemma currentApi_stopDurationTracking [simp]:
  "currentApi (stopDurationTracking now s) = currentApi s"
  by (simp add: stopDurationTracking_def Let_def)

lemma currentApi_step:
  "currentApi s = WebSpeech \<Longrightarrow> \<not> is_changeApi e \<Longrightarrow> currentApi (orch_step s e) = WebSpeech"
  by (cases e)
     (simp_all add: currentApi_orch_start currentApi_settle orch_stop_def updateLanguage_def
        forceFinalize_def recognition_end_def recognition_error_def transcriber_error_def
        duration_tick_def createService_def Let_def split: option.splits)

lemma currentApi_run:
  "currentApi s = WebSpeech \<Longrightarrow> \<forall>e\<in>set evs. \<not> is_changeApi e \<Longrightarrow>
   currentApi (orch_run s evs) = WebSpeech"
  unfolding orch_run_def by (induction evs arbitrary: s) (simp_all add: currentApi_step)

lemma snoc_update: "(xs[i := a] @ [y])[length xs := z] = xs[i := a] @ [z]"
  by (simp add: list_update_append)

text \<open>The \<^verbatim>\<open>catch\<close> block, when the selection is not the Web Speech backend: a new Web Speech
  adapter is made current and started.\<close>

lemma settle_first_rejected:
  assumes c: "consistent s" and a: "awaited_phase i s = Some First"
    and n: "currentApi s \<noteq> WebSpeech"
  shows "fallback_pending (length (services s)) (settle i (Failed kept) now s)"
    "currentApi (settle i (Failed kept) now s) = WebSpeech"
    "currentService (settle i (Failed kept) now s) = Some (length (services s))"
    "services (settle i (Failed kept) now s) ! length (services s)
       = \<lparr>api = WebSpeech, listening = False, microphone = True, starting = 1\<rparr>"
    "adapter_starts (trace (settle i (Failed kept) now s))
       = adapter_starts (trace s) @ [length (services s)]"
    "start_results (trace (settle i (Failed kept) now s)) = start_results (trace s)"
proof -
  from awaited_phase_starting [OF c a] have i: "i < length (services s)" "0 < starting (services s ! i)"
    by simp_all
  from a obtain rest where t: "take_awaiting i (awaiting s) = Some (First, rest)"
    by (auto simp add: awaited_phase_def)
  have "count_list (map fst (awaiting s)) (length (services s)) = 0"
    using c by (simp add: consistent_def)
  then have "count_list (map fst rest) (length (services s)) = 0"
    using take_awaiting_count [OF t, of "length (services s)"] by simp
  then have f: "take_awaiting (length (services s)) (rest @ [(length (services s), Fallback)])
      = Some (Fallback, rest)"
    by (rule take_awaiting_fresh)
  define sv where "sv = snd (service_settle (Failed kept) (services s ! i))"
  have s1: "settle i (Failed kept) now s
      = s\<lparr>services := (services s)[i := sv]
               @ [\<lparr>api = WebSpeech, listening = False, microphone = True, starting = 1\<rparr>],
            awaiting := rest @ [(length (services s), Fallback)],
            currentApi := WebSpeech, currentService := Some (length (services s)),
            trace := trace s @ [LogError]
              @ (if withTranscriptionStart s then [NotifyTranscriptionStart] else [])
              @ [AdapterStart (length (services s))]\<rparr>"
    using i t n
    by (simp add: settle_def start_rejected_def await_fallback_start_def createService_def
        notify_def service_settle_def service_start_def sv_def Let_def nth_append snoc_update)
  show "fallback_pending (length (services s)) (settle i (Failed kept) now s)"
    by (simp add: s1 inv_defs f nth_append)
  show "currentApi (settle i (Failed kept) now s) = WebSpeech"
    "currentService (settle i (Failed kept) now s) = Some (length (services s))"
    "services (settle i (Failed kept) now s) ! length (services s)
       = \<lparr>api = WebSpeech, listening = False, microphone = True, starting = 1\<rparr>"
    "adapter_starts (trace (settle i (Failed kept) now s))
       = adapter_starts (trace s) @ [length (services s)]"
    "start_results (trace (settle i (Failed kept) now s)) = start_results (trace s)"
    by (simp_all add: s1 nth_append)
qed


text \<open>The end of the fallback adapter's \<^verbatim>\<open>start\<close>: the suspended \<^verbatim>\<open>start()\<close> of the
  orchestrator resolves and duration tracking starts, or it rejects; no adapter is started.\<close>

lemma settle_pending_started:
  assumes p: "fallback_pending j s"
  shows "start_results (trace (settle j Started t s)) = start_results (trace s) @ [Resolved]"
    "adapter_starts (trace (settle j Started t s)) = adapter_starts (trace s)"
    "startTime (settle j Started t s) = Some t" "durationMs (settle j Started t s) = 0"
    "durationInterval (settle j Started t s)"
    "listening (services (settle j Started t s) ! j)"
    "currentApi (settle j Started t s) = currentApi s"
proof -
  from p obtain rest where t: "take_awaiting j (awaiting s) = Some (Fallback, rest)"
    by (auto simp add: inv_defs)
  from p have j: "j < length (services s)" "0 < starting (services s ! j)"
    by (simp_all add: fallback_pending_def)
  show "start_results (trace (settle j Started t s)) = start_results (trace s) @ [Resolved]"
    "adapter_starts (trace (settle j Started t s)) = adapter_starts (trace s)"
    "startTime (settle j Started t s) = Some t" "durationMs (settle j Started t s) = 0"
    "durationInterval (settle j Started t s)"
    "listening (services (settle j Started t s) ! j)"
    "currentApi (settle j Started t s) = currentApi s"
    using j t
    by (simp_all add: settle_def start_resolved_def startDurationTracking_def notify_def
        service_settle_def Let_def)
qed


text \<open>The Nano, Whisper, Google and Realtime adapters behave as the orchestrator's view of an
  adapter says: \<^verbatim>\<open>start\<close> suspends unless the adapter listens; a granted microphone ends it
  with \<open>Started\<close> when the audio graph can be made and with \<open>Failed True\<close> when a constructor
  throws, a refused one with \<open>Failed False\<close>. (The AssemblyAI adapter differs in that its
  \<^verbatim>\<open>start\<close> has three suspension points and rejects at once without an API key.)\<close>

lemma nano_refines_service:
  assumes "a \<noteq> WebSpeech"
  shows
  "service_start (service_of a n) = (fst (nano_start n), service_of a (snd (nano_start n)))"
  "service_settle
       (if audio_context_accepts (sampleRate n) \<and> script_processor_accepts (bufferSize n)
        then Started else Failed True) (service_of a n)
     = (fst (nano_start_resume True n), service_of a (snd (nano_start_resume True n)))"
  "service_settle (Failed False) (service_of a n)
     = (fst (nano_start_resume False n), service_of a (snd (nano_start_resume False n)))"
  "service_stop (service_of a n) = service_of a (nano_stop n)"
  using assms
  by (simp_all add: service_of_def service_start_def service_settle_def service_stop_def
      nano_start_def nano_start_resume_def nano_stop_def nano_finalizeSentence_def
      emit_def release_audio_def clear_refs_def request_media_def wire_audio_def create_graph_def
      Let_def)

lemma whisper_refines_service:
  assumes "a \<noteq> WebSpeech"
  shows
  "service_start (service_of a w) = (fst (whisper_start w), service_of a (snd (whisper_start w)))"
  "service_settle
       (if audio_context_accepts (sampleRate w) \<and> script_processor_accepts (bufferSize w)
        then Started else Failed True) (service_of a w)
     = (fst (whisper_start_resume True w), service_of a (snd (whisper_start_resume True w)))"
  "service_settle (Failed False) (service_of a w)
     = (fst (whisper_start_resume False w), service_of a (snd (whisper_start_resume False w)))"
  "service_stop (service_of a w) = service_of a (whisper_stop w)"
  using assms
  by (simp_all add: service_of_def service_start_def service_settle_def service_stop_def
      whisper_start_def whisper_start_resume_def whisper_stop_def whisper_finalizeSentence_def
      emit_def release_audio_def clear_refs_def request_media_def wire_audio_def create_graph_def
      Let_def)

lemma google_refines_service:
  assumes "a \<noteq> WebSpeech"
  shows
  "service_start (service_of a g) = (fst (google_start g), service_of a (snd (google_start g)))"
  "service_settle
       (if audio_context_accepts (sampleRate g) \<and> script_processor_accepts (bufferSize g)
        then Started else Failed True) (service_of a g)
     = (fst (google_start_resume True g), service_of a (snd (google_start_resume True g)))"
  "service_settle (Failed False) (service_of a g)
     = (fst (google_start_resume False g), service_of a (snd (google_start_resume False g)))"
  "service_stop (service_of a g) = service_of a (google_stop g)"
  using assms
  by (simp_all add: service_of_def service_start_def service_settle_def service_stop_def
      google_start_def google_start_resume_def google_stop_def google_finalizeSentence_def
      google_startRecording_def
      emit_def release_audio_def clear_refs_def request_media_def wire_audio_def create_graph_def
      Let_def)

lemma realtime_refines_service:
  assumes "a \<noteq> WebSpeech"
  shows
  "service_start (service_of a r) = (fst (realtime_start r), service_of a (snd (realtime_start r)))"
  "service_settle
       (if audio_context_accepts (sampleRate r) \<and> script_processor_accepts (bufferSize r)
        then Started else Failed True) (service_of a r)
     = (fst (realtime_start_resume True r), service_of a (snd (realtime_start_resume True r)))"
  "service_settle (Failed False) (service_of a r)
     = (fst (realtime_start_resume False r), service_of a (snd (realtime_start_resume False r)))"
  "service_stop (service_of a r) = service_of a (realtime_stop timestamp r)"
  using assms
  by (simp_all add: service_of_def service_start_def service_settle_def service_stop_def
      realtime_start_def realtime_start_resume_def realtime_stop_def realtime_finalizeSentence_def
      emit_def release_audio_def clear_refs_def request_media_def wire_audio_def create_graph_def
      Let_def)

lemmas adapters_refine_service = nano_refines_service whisper_refines_service
  google_refines_service realtime_refines_service

text \<open>
  The Web Speech adapter. Its \<^verbatim>\<open>start\<close> starts the recogniser and suspends, or rejects at
  once when the recogniser is started already; in a browser without the API it rejects at
  once, which the orchestrator sees as a \<^verbatim>\<open>start\<close> that ends with \<open>Failed False\<close>. The
  \<^verbatim>\<open>start\<close> event ends the suspended call with \<open>Started\<close>, the \<^verbatim>\<open>error\<close> event with
  \<open>Failed True\<close>. \<^verbatim>\<open>stop\<close> changes nothing the orchestrator observes.
\<close>

lemma webspeech_refines_service:
  "recognition s \<or> supported \<Longrightarrow>
   service_start (service_of_webspeech s)
     = (fst (webspeech_start supported s), service_of_webspeech (snd (webspeech_start supported s)))"
  "\<not> ws_listening s \<Longrightarrow> \<not> recognition s \<Longrightarrow> \<not> recognizing s \<Longrightarrow>
   fst (webspeech_start False s) = Rejected
   \<and> fst (service_start (service_of_webspeech s)) = Pending
   \<and> service_settle (Failed False) (snd (service_start (service_of_webspeech s)))
       = (Rejected, service_of_webspeech (snd (webspeech_start False s)))"
  "ws_pending s = 1 \<Longrightarrow> recognizing s \<Longrightarrow>
   service_settle Started (service_of_webspeech s)
     = (Resolved, service_of_webspeech (webspeech_onstart s))"
  "ws_pending s = 1 \<Longrightarrow> \<not> ws_listening s \<Longrightarrow> recognizing s \<Longrightarrow>
   service_settle (Failed True) (service_of_webspeech s)
     = (Rejected, service_of_webspeech (webspeech_onerror s))"
  "ws_pending s = 0 \<Longrightarrow>
   service_error (service_of_webspeech s) = service_of_webspeech (webspeech_onerror s)"
  "service_end (service_of_webspeech s) = service_of_webspeech (webspeech_onend s)"
  "service_stop (service_of_webspeech s) = service_of_webspeech (webspeech_stop s)"
  "listening (service_of_webspeech s) = webspeech_isListening s"
  by (auto simp add: service_of_webspeech_def service_start_def service_settle_def service_stop_def
      service_end_def service_error_def webspeech_start_def webspeech_onstart_def
      webspeech_onerror_def webspeech_onend_def webspeech_stop_def webspeech_isListening_def
      ws_emit_def Let_def)

text \<open>In every state the adapter reaches, at most one \<^verbatim>\<open>start\<close> is suspended, and while one
  is, the recogniser is started and the adapter does not listen.\<close>

lemma webspeech_pending_step:
  "ws_pending s \<le> 1 \<and> (0 < ws_pending s \<longrightarrow> recognizing s \<and> \<not> ws_listening s) \<Longrightarrow>
   ws_pending (webspeech_step s e) \<le> 1
   \<and> (0 < ws_pending (webspeech_step s e) \<longrightarrow>
        recognizing (webspeech_step s e) \<and> \<not> ws_listening (webspeech_step s e))"
  by (cases e)
     (auto simp add: webspeech_start_def webspeech_stop_def webspeech_onstart_def
        webspeech_onerror_def webspeech_onend_def webspeech_onresult_def ws_emit_def Let_def)

lemma webspeech_pending_run:
  "ws_pending (webspeech_run (createWebSpeechService callback) evs) \<le> 1
   \<and> (0 < ws_pending (webspeech_run (createWebSpeechService callback) evs) \<longrightarrow>
        recognizing (webspeech_run (createWebSpeechService callback) evs)
        \<and> \<not> ws_listening (webspeech_run (createWebSpeechService callback) evs))"
proof (induction evs rule: rev_induct)
  case Nil
  then show ?case by (simp add: webspeech_run_def createWebSpeechService_def)
next
  case (snoc e evs)
  have "webspeech_run (createWebSpeechService callback) (evs @ [e])
      = webspeech_step (webspeech_run (createWebSpeechService callback) evs) e"
    by (simp add: webspeech_run_def)
  then show ?case using webspeech_pending_step [OF snoc.IH, of e] by simp
qed

section \<open>Falling back to the Web Speech adapter\<close>




text \<open>
  Claim C5 (as amended). After \<^verbatim>\<open>start()\<close> has succeeded through the fallback (the adapter of
  the selected backend, not the Web Speech one, rejected and the Web Speech adapter started),
  \<^verbatim>\<open>start()\<close> has resolved without raising, and \<^verbatim>\<open>getApi()\<close> reports the Web Speech backend,
  not the backend that was requested, unless \<^verbatim>\<open>changeApi\<close> has been called since the fallback
  began: the \<^verbatim>\<open>catch\<close> block assigns \<^verbatim>\<open>'webSpeech'\<close> to \<^verbatim>\<open>currentApi\<close>, and the selection that
  was requested is kept nowhere.
\<close>

theorem getApi_after_fallback:
  assumes "s = orch_run (createSpeechRecognitionService transcriptionStart durationUpdate) evs0"
    and "awaited_phase i s = Some First"
    and "currentApi s \<noteq> WebSpeech"
    and "\<forall>e\<in>set evs. \<not> settles (length (services s)) e \<and> \<not> is_changeApi e"
  shows "getApi (settle (length (services s)) Started t
            (orch_run (settle i (Failed kept) now s) evs)) = WebSpeech
    \<and> start_results (trace (settle (length (services s)) Started t
            (orch_run (settle i (Failed kept) now s) evs)))
        = start_results (trace (orch_run (settle i (Failed kept) now s) evs)) @ [Resolved]"
proof -
  have c: "consistent s"
    unfolding assms(1) by (intro consistent_run consistent_create)
  note first = settle_first_rejected [OF c assms(2,3), of kept now]
  have e1: "\<forall>e\<in>set evs. \<not> settles (length (services s)) e"
    and e2: "\<forall>e\<in>set evs. \<not> is_changeApi e"
    using assms(4) by simp_all
  have p: "fallback_pending (length (services s)) (orch_run (settle i (Failed kept) now s) evs)"
    using first(1) e1 by (rule pending_run)
  have a: "currentApi (orch_run (settle i (Failed kept) now s) evs) = WebSpeech"
    using first(2) e2 by (rule currentApi_run)
  show ?thesis
    using settle_pending_started [OF p, of t] a by (simp add: getApi_def)
qed

theorem getApi_after_fallback_witness:
  "awaited_phase 1 (orch_run (createSpeechRecognitionService True True)
      [CallChangeApi GoogleSpeech 0, CallStart 10]) = Some First
   \<and> getApi (orch_run (createSpeechRecognitionService True True)
      [CallChangeApi GoogleSpeech 0, CallStart 10]) = GoogleSpeech
   \<and> getApi (settle 2 Started 30 (orch_run (settle 1 (Failed False) 20
        (orch_run (createSpeechRecognitionService True True)
          [CallChangeApi GoogleSpeech 0, CallStart 10])) [Tick 25, CallUpdateLanguage 26]))
       = WebSpeech
   \<and> start_results (trace (settle 2 Started 30 (orch_run (settle 1 (Failed False) 20
        (orch_run (createSpeechRecognitionService True True)
          [CallChangeApi GoogleSpeech 0, CallStart 10])) [Tick 25, CallUpdateLanguage 26])))
       = start_results (trace (orch_run (settle 1 (Failed False) 20
        (orch_run (createSpeechRecognitionService True True)
          [CallChangeApi GoogleSpeech 0, CallStart 10])) [Tick 25, CallUpdateLanguage 26]))
         @ [Resolved]"
proof -
  let ?s = "orch_run (createSpeechRecognitionService True True)
      [CallChangeApi GoogleSpeech 0, CallStart 10]"
  have s: "?s = \<lparr>currentApi = GoogleSpeech, currentService = Some 1,
      services = [\<lparr>api = WebSpeech, listening = False, microphone = False, starting = 0\<rparr>,
                  \<lparr>api = GoogleSpeech, listening = False, microphone = False, starting = 1\<rparr>],
      startTime = None, endTime = None, durationMs = 0, durationInterval = False,
      withTranscriptionStart = True, withDurationUpdate = True,
      awaiting = [(1, First)], trace = [NotifyTranscriptionStart, AdapterStart 1]\<rparr>"
    by (simp add: orch_run_def orch_defs changeApi_def createSpeechRecognitionService_def Let_def)
  have a: "awaited_phase 1 ?s = Some First" and l: "length (services ?s) = 2"
    and w: "currentApi ?s = GoogleSpeech"
    by (simp_all add: s awaited_phase_def)
  have n: "currentApi ?s \<noteq> WebSpeech" by (simp add: w)
  have e: "\<forall>e\<in>set [Tick 25, CallUpdateLanguage 26].
      \<not> settles (length (services ?s)) e \<and> \<not> is_changeApi e"
    by simp
  from getApi_after_fallback [OF refl a n e, of 30 False 20] a w l
  show ?thesis
    by (simp add: getApi_def)
qed

text \<open>The claim as stated fails: Whisper is selected, its adapter rejects, the Web Speech
  adapter starts, \<^verbatim>\<open>start()\<close> resolves, and \<^verbatim>\<open>getApi()\<close> does not report Whisper.\<close>

theorem getApi_after_fallback_counterexample:
  "getApi (changeApi Whisper 0 (createSpeechRecognitionService False False)) = Whisper
   \<and> start_results (trace (settle 2 Started 30 (settle 1 (Failed False) 20
      (orch_start 10 (changeApi Whisper 0 (createSpeechRecognitionService False False))))))
     = [Resolved]
   \<and> getApi (settle 2 Started 30 (settle 1 (Failed False) 20
      (orch_start 10 (changeApi Whisper 0 (createSpeechRecognitionService False False)))))
     \<noteq> Whisper"
  by (simp add: orch_defs changeApi_def createSpeechRecognitionService_def take_awaiting.simps
      Let_def numeral_2_eq_2)

text \<open>Why the amended claim excepts \<^verbatim>\<open>changeApi\<close>: called while the fallback adapter has not
  answered, it replaces the selection, and \<^verbatim>\<open>start()\<close> still resolves when the replaced
  fallback adapter starts.\<close>

lemma changeApi_during_fallback:
  "start_results (trace (orch_run (createSpeechRecognitionService False False)
      [CallChangeApi Whisper 0, CallStart 10, Settle 1 (Failed False) 20,
       CallChangeApi GoogleSpeech 25, Settle 2 Started 30])) = [Resolved]
   \<and> getApi (orch_run (createSpeechRecognitionService False False)
      [CallChangeApi Whisper 0, CallStart 10, Settle 1 (Failed False) 20,
       CallChangeApi GoogleSpeech 25, Settle 2 Started 30]) = GoogleSpeech"
  by (simp add: orch_run_def orch_defs changeApi_def createSpeechRecognitionService_def
      take_awaiting.simps Let_def numeral_2_eq_2 numeral_3_eq_3)

section \<open>Changing the backend\<close>

text \<open>When no \<^verbatim>\<open>start()\<close> of the current adapter is suspended, the adapter holds the
  microphone only while it listens and it is not the Web Speech adapter, \<^verbatim>\<open>changeApi\<close> leaves
  it stopped and without a microphone, and the new adapter has not acquired one.\<close>

lemma changeApi_quiescent:
  assumes "currentService s = Some i" "i < length (services s)"
    "microphone (services s ! i) \<longrightarrow> listening (services s ! i)"
    "api (services s ! i) \<noteq> WebSpeech"
  shows "let s' = changeApi b now s
         in \<not> listening (services s' ! i)
          \<and> \<not> microphone (services s' ! i)
          \<and> getApi s' = b
          \<and> currentService s' = Some (length (services s))
          \<and> services s' ! length (services s)
              = \<lparr>api = b, listening = False, microphone = False, starting = 0\<rparr>"
  using assms
  by (auto simp add: changeApi_def createService_def stopDurationTracking_def notify_def
      service_stop_def getApi_def Let_def nth_append)

text \<open>A Web Speech adapter is only asked to stop: it listens and captures until its recogniser
  fires \<^verbatim>\<open>end\<close>, also after \<^verbatim>\<open>changeApi\<close> has replaced it.\<close>

lemma changeApi_webspeech:
  assumes "currentService s = Some i" "i < length (services s)"
    "api (services s ! i) = WebSpeech"
  shows "services (changeApi b now s) ! i = services s ! i"
  using assms
  by (auto simp add: changeApi_def createService_def stopDurationTracking_def notify_def
      service_stop_def Let_def nth_append)

text \<open>
  Claim C9: after \<^verbatim>\<open>changeApi\<close> the adapter of the previous selection is not listening and
  has released the microphone, the new adapter has not acquired one yet, and two adapters never
  hold the microphone at once. This fails when \<^verbatim>\<open>changeApi\<close> is called while \<^verbatim>\<open>start()\<close>
  is suspended. The Nano
  backend is selected and \<^verbatim>\<open>start()\<close> is called: the Nano adapter (instance 1) waits for the
  microphone. \<^verbatim>\<open>changeApi\<close> to Whisper finds \<^verbatim>\<open>isListening()\<close> false, does not stop the
  adapter and replaces it by instance 2. Then the microphone is granted: the Nano adapter,
  which nobody can stop any more, listens and holds the microphone, while the orchestrator
  reports that it is not listening. A second \<^verbatim>\<open>start()\<close> makes the Whisper adapter acquire the
  microphone as well.
\<close>

theorem changeApi_during_start_leaks_microphone:
  "\<not> listening (services (changeApi Whisper 20 (orch_start 10
        (changeApi AssemblyAINano 0 (createSpeechRecognitionService False False)))) ! 1)
   \<and> currentService (changeApi Whisper 20 (orch_start 10
        (changeApi AssemblyAINano 0 (createSpeechRecognitionService False False)))) = Some 2
   \<and> listening (services (settle 1 Started 30 (changeApi Whisper 20 (orch_start 10
        (changeApi AssemblyAINano 0 (createSpeechRecognitionService False False))))) ! 1)
   \<and> microphone (services (settle 1 Started 30 (changeApi Whisper 20 (orch_start 10
        (changeApi AssemblyAINano 0 (createSpeechRecognitionService False False))))) ! 1)
   \<and> api (services (settle 1 Started 30 (changeApi Whisper 20 (orch_start 10
        (changeApi AssemblyAINano 0 (createSpeechRecognitionService False False))))) ! 1)
       = AssemblyAINano
   \<and> \<not> orch_isListening (settle 1 Started 30 (changeApi Whisper 20 (orch_start 10
        (changeApi AssemblyAINano 0 (createSpeechRecognitionService False False)))))
   \<and> microphone (services (settle 2 Started 50 (orch_start 40 (settle 1 Started 30
        (changeApi Whisper 20 (orch_start 10
          (changeApi AssemblyAINano 0 (createSpeechRecognitionService False False))))))) ! 1)
   \<and> microphone (services (settle 2 Started 50 (orch_start 40 (settle 1 Started 30
        (changeApi Whisper 20 (orch_start 10
          (changeApi AssemblyAINano 0 (createSpeechRecognitionService False False))))))) ! 2)"
  by (simp add: orch_defs changeApi_def createSpeechRecognitionService_def take_awaiting.simps
      Let_def numeral_2_eq_2)


end
